theory Spec2Isabelle
  imports Complex_Main "HOL-Library.Sublist"
begin

section \<open>Common Python values\<close>

text \<open>
  Exceptions are values. Only the exception classes the modelled functions can raise
  or catch are listed; the message text is dropped.
\<close>

datatype py_error =
    ValueError
  | KeyError
  | TypeError
  | AttributeError
  | JSONDecodeError
  | OverflowError
  | RuntimeError
  | Exception

text \<open>
  A Python float: a finite value, given by the rational it denotes, an infinity, or
  NaN. Which rationals are floats, and how an operation rounds, is not fixed here: the
  operations that round are parameters of the functions that use them.
\<close>

datatype pyfloat = Finite rat | PosInf | NegInf | NaN

text \<open>
  The value \<open>json.loads\<close> yields. Integers and floats are kept apart as Python
  does; the decoder also accepts the literals NaN and Infinity.
\<close>

datatype json =
    JNull
  | JBool bool
  | JInt int
  | JFloat pyfloat
  | JStr string
  | JArr "json list"
  | JObj "(string \<times> json) list"

text \<open>A decoded JSON object is a Python dict; \<open>d.get(k)\<close> is \<open>map_of d k\<close>.\<close>

type_synonym json_dict = "(string \<times> json) list"

text \<open>\<open>d.get(k, default)\<close> on the outcome \<open>v\<close> of looking \<open>k\<close> up.\<close>

definition get_or :: "'a option \<Rightarrow> 'a \<Rightarrow> 'a" where
  "get_or v d = (case v of None \<Rightarrow> d | Some x \<Rightarrow> x)"

text \<open>
  Python's \<open>a in b\<close> on two strings: \<open>a\<close> occurs in \<open>b\<close> as a contiguous
  block. The empty string occurs in every string.
\<close>

fun str_in :: "'a list \<Rightarrow> 'a list \<Rightarrow> bool" where
  "str_in a [] = (a = [])"
| "str_in a (c # cs) = (prefix a (c # cs) \<or> str_in a cs)"

text \<open>
  \<open>str.strip()\<close>: whitespace is removed at both ends. A character of the model is
  a code point below 256; those for which \<open>str.isspace\<close> holds are 9..13, 28..32,
  133 and 160.
\<close>

definition isspace :: "char \<Rightarrow> bool" where
  "isspace c = (let n = (of_char c :: nat) in
     (9 \<le> n \<and> n \<le> 13) \<or> (28 \<le> n \<and> n \<le> 32) \<or> n = 133 \<or> n = 160)"

definition strip :: "string \<Rightarrow> string" where
  "strip s = rev (dropWhile isspace (rev (dropWhile isspace s)))"

section \<open>Task Scheduler (task\_planner.py)\<close>

datatype TaskStatus = PENDING | IN_PROGRESS | COMPLETED | FAILED | SKIPPED

text \<open>
  The dataclass \<open>Subtask\<close> with the field types it declares. The field \<open>id\<close> is
  named \<open>task_id\<close> here.
\<close>

record Subtask =
  task_id :: string
  description :: string
  priority :: int
  dependencies :: "string list"
  status :: TaskStatus
  result :: "string option"
  attempts :: int
  max_attempts :: int

text \<open>\<open>TaskPlanner._get_task_by_id\<close>: the first task of the list with that id.\<close>

fun get_task_by_id :: "Subtask list \<Rightarrow> string \<Rightarrow> Subtask option" where
  "get_task_by_id [] tid = None"
| "get_task_by_id (task # rest) tid =
     (if task_id task = tid then Some task else get_task_by_id rest tid)"

text \<open>
  \<open>TaskPlanner._dependencies_met\<close>: the loop over \<open>task.dependencies\<close>, which
  returns False at the first dependency that is unknown or not completed.
\<close>

fun deps_loop :: "Subtask list \<Rightarrow> string list \<Rightarrow> bool" where
  "deps_loop tasks [] = True"
| "deps_loop tasks (dep_id # rest) =
     (case get_task_by_id tasks dep_id of
        None \<Rightarrow> False
      | Some dep_task \<Rightarrow>
          if status dep_task \<noteq> COMPLETED then False else deps_loop tasks rest)"

definition dependencies_met :: "Subtask list \<Rightarrow> Subtask \<Rightarrow> bool" where
  "dependencies_met tasks task = deps_loop tasks (dependencies task)"

text \<open>
  \<open>self.tasks\<close> is a list of mutable objects, and \<open>get_next_task\<close> returns one of
  these objects after changing it in place. An object is identified by its position in
  \<open>self.tasks\<close>: the list comprehensions collect positions, \<open>sorted\<close> (a stable
  sort, as \<open>sort_key\<close> is) orders them by the priority of the task there, and the
  function returns the position together with the task as it is after the update.
\<close>

definition executable :: "Subtask list \<Rightarrow> nat list" where
  "executable tasks =
     filter (\<lambda>i. status (tasks ! i) = PENDING
               \<and> dependencies_met tasks (tasks ! i)
               \<and> attempts (tasks ! i) < max_attempts (tasks ! i))
       [0..<length tasks]"

definition retryable :: "Subtask list \<Rightarrow> nat list" where
  "retryable tasks =
     filter (\<lambda>i. status (tasks ! i) = FAILED
               \<and> attempts (tasks ! i) < max_attempts (tasks ! i)
               \<and> dependencies_met tasks (tasks ! i))
       [0..<length tasks]"

definition lowest_priority :: "Subtask list \<Rightarrow> nat list \<Rightarrow> nat" where
  "lowest_priority tasks candidates = hd (sort_key (\<lambda>i. priority (tasks ! i)) candidates)"

definition start_task :: "Subtask list \<Rightarrow> nat \<Rightarrow> Subtask list" where
  "start_task tasks i =
     tasks[i := (tasks ! i)\<lparr>status := IN_PROGRESS, attempts := attempts (tasks ! i) + 1\<rparr>]"

definition get_next_task :: "Subtask list \<Rightarrow> (nat \<times> Subtask) option \<times> Subtask list" where
  "get_next_task tasks =
     (if executable tasks = [] then
        (if retryable tasks \<noteq> [] then
           (let i = lowest_priority tasks (retryable tasks);
                tasks' = start_task tasks i
            in (Some (i, tasks' ! i), tasks'))
         else (None, tasks))
      else
        (let i = lowest_priority tasks (executable tasks);
             tasks' = start_task tasks i
         in (Some (i, tasks' ! i), tasks')))"

text \<open>
  \<open>TaskPlanner.update_status\<close>: the first task with the id gets the status and,
  when one is given, the result; an unknown id gives False and changes nothing.
\<close>

fun set_status :: "Subtask list \<Rightarrow> string \<Rightarrow> TaskStatus \<Rightarrow> string option \<Rightarrow> Subtask list" where
  "set_status [] tid st res = []"
| "set_status (task # rest) tid st res =
     (if task_id task = tid then
        (case res of
           None \<Rightarrow> task\<lparr>status := st\<rparr>
         | Some r \<Rightarrow> task\<lparr>status := st, result := Some r\<rparr>) # rest
      else task # set_status rest tid st res)"

definition update_status ::
  "Subtask list \<Rightarrow> string \<Rightarrow> TaskStatus \<Rightarrow> string option \<Rightarrow> bool \<times> Subtask list" where
  "update_status tasks tid st res =
     (case get_task_by_id tasks tid of
        None \<Rightarrow> (False, tasks)
      | Some task \<Rightarrow> (True, set_status tasks tid st res))"

text \<open>
  A caller's use of the scheduler: any sequence of \<open>get_next_task\<close> and
  \<open>update_status\<close> calls. \<open>run_calls\<close> gives the positions the
  \<open>get_next_task\<close> calls returned, in order, and the final task list.
\<close>

datatype planner_call = GetNextTask | UpdateStatus string TaskStatus "string option"

fun run_calls :: "Subtask list \<Rightarrow> planner_call list \<Rightarrow> nat list \<times> Subtask list" where
  "run_calls tasks [] = ([], tasks)"
| "run_calls tasks (GetNextTask # calls) =
     (case get_next_task tasks of
        (None, tasks') \<Rightarrow> run_calls tasks' calls
      | (Some (i, task), tasks') \<Rightarrow>
          (let (returned, final) = run_calls tasks' calls in (i # returned, final)))"
| "run_calls tasks (UpdateStatus tid st res # calls) =
     run_calls (snd (update_status tasks tid st res)) calls"

text \<open>
  The selection rule in the specification's words, stated on the task list alone. A
  dependency id is completed when the task of that id is completed; should an id occur
  more than once, the task declared first under it counts. The task at position
  \<open>i\<close> is eligible in status \<open>st\<close> when it has that status, each of its
  dependencies is completed, and it has attempts left.
\<close>

definition dependency_completed :: "Subtask list \<Rightarrow> string \<Rightarrow> bool" where
  "dependency_completed tasks d \<longleftrightarrow>
     (\<exists>j<length tasks. task_id (tasks ! j) = d \<and> status (tasks ! j) = COMPLETED
        \<and> (\<forall>k<j. task_id (tasks ! k) \<noteq> d))"

definition eligible :: "Subtask list \<Rightarrow> TaskStatus \<Rightarrow> nat \<Rightarrow> bool" where
  "eligible tasks st i \<longleftrightarrow>
     i < length tasks \<and> status (tasks ! i) = st
     \<and> (\<forall>d\<in>set (dependencies (tasks ! i)). dependency_completed tasks d)
     \<and> attempts (tasks ! i) < max_attempts (tasks ! i)"

text \<open>
  Example task lists. In the first, A (priority 1) is completed and B (priority 2) and
  C (priority 1) both depend on it. In the second, B (priority 1) depends on A
  (priority 5), which is still pending. The third holds one failed task that has used
  its three attempts, the fourth one fresh task.
\<close>

definition example_tasks :: "Subtask list" where
  "example_tasks =
     [\<lparr>task_id = ''A'', description = ''a'', priority = 1, dependencies = [],
        status = COMPLETED, result = None, attempts = 1, max_attempts = 3\<rparr>,
      \<lparr>task_id = ''B'', description = ''b'', priority = 2, dependencies = [''A''],
        status = PENDING, result = None, attempts = 0, max_attempts = 3\<rparr>,
      \<lparr>task_id = ''C'', description = ''c'', priority = 1, dependencies = [''A''],
        status = PENDING, result = None, attempts = 0, max_attempts = 3\<rparr>]"

definition blocked_tasks :: "Subtask list" where
  "blocked_tasks =
     [\<lparr>task_id = ''A'', description = ''a'', priority = 5, dependencies = [],
        status = PENDING, result = None, attempts = 0, max_attempts = 3\<rparr>,
      \<lparr>task_id = ''B'', description = ''b'', priority = 1, dependencies = [''A''],
        status = PENDING, result = None, attempts = 0, max_attempts = 3\<rparr>]"

definition exhausted_task :: "Subtask list" where
  "exhausted_task =
     [\<lparr>task_id = ''A'', description = ''a'', priority = 1, dependencies = [],
        status = FAILED, result = None, attempts = 3, max_attempts = 3\<rparr>]"

definition fresh_task :: "Subtask list" where
  "fresh_task =
     [\<lparr>task_id = ''A'', description = ''a'', priority = 1, dependencies = [],
        status = PENDING, result = None, attempts = 0, max_attempts = 3\<rparr>]"

definition retry_calls :: "planner_call list" where
  "retry_calls =
     [GetNextTask, UpdateStatus ''A'' FAILED None,
      GetNextTask, UpdateStatus ''A'' FAILED None,
      GetNextTask, UpdateStatus ''A'' FAILED None,
      GetNextTask, UpdateStatus ''A'' FAILED None,
      GetNextTask]"

section \<open>Task Scheduler: decompose (task\_planner.py)\<close>

text \<open>
  \<open>decompose\<close> builds each \<open>Subtask\<close> from decoded JSON values without checking
  their types, so the first four fields of a task it creates hold whatever the
  completion gave. \<open>typed_subtask\<close> reads such a task at the declared field types,
  when its values have them.
\<close>

record decoded_subtask =
  dt_id :: json
  dt_description :: json
  dt_priority :: json
  dt_dependencies :: json
  dt_status :: TaskStatus
  dt_result :: "string option"
  dt_attempts :: int
  dt_max_attempts :: int

fun json_strings :: "json list \<Rightarrow> string list option" where
  "json_strings [] = Some []"
| "json_strings (JStr s # rest) = map_option ((#) s) (json_strings rest)"
| "json_strings (v # rest) = None"

definition typed_subtask :: "decoded_subtask \<Rightarrow> Subtask option" where
  "typed_subtask t =
     (case (dt_id t, dt_description t, dt_priority t, dt_dependencies t) of
        (JStr i, JStr d, JInt p, JArr deps) \<Rightarrow>
          (case json_strings deps of
             None \<Rightarrow> None
           | Some ds \<Rightarrow>
               Some \<lparr>task_id = i, description = d, priority = p, dependencies = ds,
                     status = dt_status t, result = dt_result t,
                     attempts = dt_attempts t, max_attempts = dt_max_attempts t\<rparr>)
      | _ \<Rightarrow> None)"

text \<open>
  The constructor call \<open>Subtask(id=..., description=..., priority=..., dependencies=...)\<close>
  with the dataclass defaults for the other fields.
\<close>

definition new_subtask :: "json \<Rightarrow> json \<Rightarrow> json \<Rightarrow> json \<Rightarrow> decoded_subtask" where
  "new_subtask i d p deps =
     \<lparr>dt_id = i, dt_description = d, dt_priority = p, dt_dependencies = deps,
      dt_status = PENDING, dt_result = None, dt_attempts = 0, dt_max_attempts = 3\<rparr>"

definition fallback_task :: "string \<Rightarrow> decoded_subtask" where
  "fallback_task goal = new_subtask (JStr ''task_1'') (JStr goal) (JInt 1) (JArr [])"

text \<open>
  \<open>for x in v\<close> and \<open>v[key]\<close> on a decoded JSON value: a string iterates over its
  characters and a dict over its keys; only a dict can be indexed by a string.
\<close>

fun py_iter :: "json \<Rightarrow> py_error + json list" where
  "py_iter (JArr xs) = Inr xs"
| "py_iter (JStr s) = Inr (map (\<lambda>c. JStr [c]) s)"
| "py_iter (JObj kvs) = Inr (map (\<lambda>kv. JStr (fst kv)) kvs)"
| "py_iter v = Inl TypeError"

fun py_getitem :: "json \<Rightarrow> string \<Rightarrow> py_error + json" where
  "py_getitem (JObj kvs) k = (case map_of kvs k of None \<Rightarrow> Inl KeyError | Some v \<Rightarrow> Inr v)"
| "py_getitem v k = Inl TypeError"

definition subtask_of :: "json \<Rightarrow> py_error + decoded_subtask" where
  "subtask_of task_data =
     (case py_getitem task_data ''id'' of
        Inl e \<Rightarrow> Inl e
      | Inr i \<Rightarrow>
     (case py_getitem task_data ''description'' of
        Inl e \<Rightarrow> Inl e
      | Inr d \<Rightarrow>
     (case py_getitem task_data ''priority'' of
        Inl e \<Rightarrow> Inl e
      | Inr p \<Rightarrow>
     (case task_data of
        JObj kvs \<Rightarrow> Inr (new_subtask i d p (get_or (map_of kvs ''dependencies'') (JArr [])))
      | _ \<Rightarrow> Inl AttributeError))))"

text \<open>
  The loop that appends to \<open>self.tasks\<close>. An exception leaves the tasks appended so
  far in place; the result carries them with it.
\<close>

fun append_subtasks ::
  "json list \<Rightarrow> decoded_subtask list \<Rightarrow> (py_error + unit) \<times> decoded_subtask list" where
  "append_subtasks [] tasks = (Inr (), tasks)"
| "append_subtasks (task_data # rest) tasks =
     (case subtask_of task_data of
        Inl e \<Rightarrow> (Inl e, tasks)
      | Inr subtask \<Rightarrow> append_subtasks rest (tasks @ [subtask]))"

text \<open>
  The \<open>try\<close> block of \<open>decompose\<close>. \<open>llm goal\<close> is the chat completion for the
  prompt built from the goal: the call raises, or gives the message content, which can
  be None. \<open>json_loads\<close> is \<open>json.loads\<close> on a string, \<open>None\<close> when it raises
  JSONDecodeError. The result is what the block returns or raises, with \<open>self.tasks\<close>
  as it is then.
\<close>

definition decompose_try ::
  "(string \<Rightarrow> py_error + string option) \<Rightarrow> (string \<Rightarrow> json option) \<Rightarrow> string
     \<Rightarrow> (py_error + decoded_subtask list) \<times> decoded_subtask list" where
  "decompose_try llm json_loads goal =
     (case llm goal of
        Inl e \<Rightarrow> (Inl e, [])
      | Inr None \<Rightarrow> (Inl TypeError, [])
      | Inr (Some content) \<Rightarrow>
          (case json_loads content of
             None \<Rightarrow> (Inl JSONDecodeError, [])
           | Some (JObj data) \<Rightarrow>
               (case py_iter (get_or (map_of data ''subtasks'') (JArr [])) of
                  Inl e \<Rightarrow> (Inl e, [])
                | Inr items \<Rightarrow>
                    (case append_subtasks items [] of
                       (Inl e, tasks) \<Rightarrow> (Inl e, tasks)
                     | (Inr u, tasks) \<Rightarrow> (Inr tasks, tasks)))
           | Some v \<Rightarrow> (Inl AttributeError, [])))"

text \<open>
  \<open>TaskPlanner.decompose\<close>: the \<open>try\<close> block with its one handler,
  \<open>except json.JSONDecodeError\<close>. Every other exception goes to the caller. The
  second component is \<open>self.tasks\<close> afterwards; \<open>self.original_goal\<close> is the goal.
\<close>

definition decompose ::
  "(string \<Rightarrow> py_error + string option) \<Rightarrow> (string \<Rightarrow> json option) \<Rightarrow> string
     \<Rightarrow> (py_error + decoded_subtask list) \<times> decoded_subtask list" where
  "decompose llm json_loads goal =
     (case decompose_try llm json_loads goal of
        (Inl JSONDecodeError, tasks) \<Rightarrow> (Inr [fallback_task goal], [fallback_task goal])
      | other \<Rightarrow> other)"

text \<open>
  Examples. \<open>llm_content c\<close> is a completion whose message content is \<open>c\<close>.
  \<open>loads_example\<close> decodes three contents, named here by a label: an object whose
  \<open>subtasks\<close> list holds a complete subtask and then one without \<open>priority\<close>, a
  JSON list, and an object without subtasks; it rejects every other content.
\<close>

definition llm_content :: "string \<Rightarrow> string \<Rightarrow> py_error + string option" where
  "llm_content c goal = Inr (Some c)"

definition loads_example :: "string \<Rightarrow> json option" where
  "loads_example s =
     (if s = ''second subtask without priority'' then
        Some (JObj [(''subtasks'',
                JArr [JObj [(''id'', JStr ''task_1''), (''description'', JStr ''survey''),
                            (''priority'', JInt 1)],
                      JObj [(''id'', JStr ''task_2''), (''description'', JStr ''report'')]])])
      else if s = ''a list'' then Some (JArr [JInt 1])
      else if s = ''an empty object'' then Some (JObj [])
      else None)"

section \<open>Retrieval Merger (search\_agent.py)\<close>

text \<open>A metadata value of a stored document or of a provenance record.\<close>

datatype meta_val = MStr string | MInt int | MFloat rat | MBool bool

type_synonym meta_dict = "(string \<times> meta_val) list"

text \<open>
  The dicts \<open>_merge_results\<close> receives. It reads them with \<open>r.get(key, default)\<close>
  only, so each field is optional: \<open>None\<close> is an absent key.
\<close>

record memory_result =
  r_text :: "string option"
  r_similarity :: "rat option"
  r_metadata :: "meta_dict option"

record web_result =
  w_content :: "string option"
  w_url :: "string option"
  w_title :: "string option"
  w_score :: "rat option"

datatype origin = Memory | Web

text \<open>
  An item of the merged list. A memory item has the keys \<open>similarity\<close> and
  \<open>metadata\<close>, a web item the keys \<open>url\<close>, \<open>title\<close> and \<open>score\<close>; the keys an
  item does not have are \<open>None\<close>.
\<close>

record merged_item =
  content :: string
  source :: origin
  similarity :: "rat option"
  metadata :: "meta_dict option"
  url :: "string option"
  title :: "string option"
  score :: "rat option"
  provenance :: meta_dict

definition meta_get :: "meta_dict \<Rightarrow> string \<Rightarrow> meta_val \<Rightarrow> meta_val" where
  "meta_get m k d = get_or (map_of m k) d"

definition from_memory :: "memory_result \<Rightarrow> merged_item" where
  "from_memory r =
     \<lparr>content = get_or (r_text r) '''',
      source = Memory,
      similarity = Some (get_or (r_similarity r) 0),
      metadata = Some (get_or (r_metadata r) []),
      url = None, title = None, score = None,
      provenance =
        [(''retrieved_from'', MStr ''memory''),
         (''original_source'', meta_get (get_or (r_metadata r) []) ''source'' (MStr ''unknown'')),
         (''original_query'', meta_get (get_or (r_metadata r) []) ''query'' (MStr '''')),
         (''stored_at'', meta_get (get_or (r_metadata r) []) ''timestamp'' (MStr '''')),
         (''confidence'', MFloat (get_or (r_similarity r) 0))]\<rparr>"

text \<open>\<open>fetched_at\<close> is the clock reading taken when the item is built.\<close>

definition from_web :: "string \<Rightarrow> web_result \<Rightarrow> merged_item" where
  "from_web fetched_at r =
     \<lparr>content = get_or (w_content r) '''',
      source = Web,
      similarity = None, metadata = None,
      url = Some (get_or (w_url r) ''''),
      title = Some (get_or (w_title r) ''''),
      score = Some (get_or (w_score r) 0),
      provenance =
        [(''retrieved_from'', MStr ''web''),
         (''url'', MStr (get_or (w_url r) '''')),
         (''fetched_at'', MStr fetched_at),
         (''tavily_score'', MFloat (get_or (w_score r) 0))]\<rparr>"

text \<open>
  \<open>SearchAgent._remove_duplicates\<close>. The inner loop over \<open>seen_contents\<close> stops
  with \<open>is_duplicate = True\<close> at the first entry that matches; an entry that
  contains or is contained in \<open>content\<close> but is long and different lets the loop
  go on.
\<close>

fun is_duplicate :: "string \<Rightarrow> string list \<Rightarrow> bool" where
  "is_duplicate c [] = False"
| "is_duplicate c (seen # rest) =
     (if str_in c seen \<or> str_in seen c then
        (if length c > 50 \<and> length seen > 50 then
           (if c = seen then True else is_duplicate c rest)
         else True)
      else is_duplicate c rest)"

fun unique_loop ::
  "merged_item list \<Rightarrow> merged_item list \<Rightarrow> string list \<Rightarrow> merged_item list" where
  "unique_loop [] unique_results seen_contents = unique_results"
| "unique_loop (r # results) unique_results seen_contents =
     (if content r = [] then unique_loop results unique_results seen_contents
      else if is_duplicate (content r) seen_contents
        then unique_loop results unique_results seen_contents
      else unique_loop results (unique_results @ [r]) (seen_contents @ [content r]))"

definition remove_duplicates :: "merged_item list \<Rightarrow> merged_item list" where
  "remove_duplicates results = (if results = [] then [] else unique_loop results [] [])"

text \<open>
  The sort key of \<open>_merge_results\<close>, and the merge itself. \<open>sorted(..., reverse=True)\<close>
  is a stable sort in descending order of the key: \<open>sort_key\<close> on the negated key.
  \<open>clock k\<close> is the clock reading for the \<open>k\<close>-th web result.
\<close>

definition merge_sort_key :: "merged_item \<Rightarrow> rat" where
  "merge_sort_key item =
     (if source item = Memory then get_or (similarity item) 0 else get_or (score item) 0)"

definition merge_results ::
  "(nat \<Rightarrow> string) \<Rightarrow> memory_result list \<Rightarrow> web_result list \<Rightarrow> merged_item list" where
  "merge_results clock memory_results web_results =
     (let merged = map from_memory memory_results
                   @ map (\<lambda>(k, r). from_web (clock k) r) (enumerate 0 web_results);
          merged = remove_duplicates merged
      in sort_key (\<lambda>item. - merge_sort_key item) merged)"

text \<open>
  The duplicate rule in the specification's words: two long texts are duplicates only
  when equal; otherwise it is enough that one occurs in the other.
\<close>

definition duplicate_texts :: "string \<Rightarrow> string \<Rightarrow> bool" where
  "duplicate_texts a b \<longleftrightarrow>
     (if length a > 50 \<and> length b > 50 then a = b else str_in a b \<or> str_in b a)"

text \<open>The list \<open>_merge_results\<close> builds before it removes duplicates.\<close>

definition merged_inputs ::
  "(nat \<Rightarrow> string) \<Rightarrow> memory_result list \<Rightarrow> web_result list \<Rightarrow> merged_item list" where
  "merged_inputs clock memory_results web_results =
     map from_memory memory_results
     @ map (\<lambda>(k, r). from_web (clock k) r) (enumerate 0 web_results)"

text \<open>
  Example inputs: a memory hit without text, a web result with content, web results
  with a given content, and two texts of 51 and 52 characters.
\<close>

definition web_hit :: "string \<Rightarrow> web_result" where
  "web_hit s = \<lparr>w_content = Some s, w_url = None, w_title = None, w_score = None\<rparr>"

definition long_text :: string where
  "long_text = replicate 51 CHR ''a''"

definition longer_text :: string where
  "longer_text = replicate 52 CHR ''a''"

definition empty_memory_hit :: memory_result where
  "empty_memory_hit = \<lparr>r_text = Some '''', r_similarity = Some (9 / 10), r_metadata = None\<rparr>"

definition some_web_hit :: web_result where
  "some_web_hit =
     \<lparr>w_content = Some ''battery'', w_url = Some ''u'', w_title = Some ''t'',
      w_score = Some (1 / 2)\<rparr>"

section \<open>Quality Critic (agents/quality\_critic.py)\<close>

definition SCORE_KEYS :: "string list" where
  "SCORE_KEYS = [''completeness'', ''accuracy'', ''clarity'', ''structure'', ''source_quality'']"

definition DEFAULT_SCORE :: pyfloat where
  "DEFAULT_SCORE = Finite 5"

definition PASS_THRESHOLD :: pyfloat where
  "PASS_THRESHOLD = Finite 7"

text \<open>
  The source's message and default-topic literals are Korean text; the constants below
  stand for them. No modelled function looks inside them.
\<close>

definition DEFAULT_TOPIC :: string where
  "DEFAULT_TOPIC = ''general''"

definition NO_FEEDBACK :: string where
  "NO_FEEDBACK = ''no specific feedback''"

definition CANNOT_EVALUATE :: string where
  "CANNOT_EVALUATE = ''evaluation could not be performed''"

text \<open>
  Comparison of floats is exact, and false whenever NaN takes part. \<open>py_min a b\<close> is
  \<open>min(a, b)\<close> and \<open>py_max a b\<close> is \<open>max(a, b)\<close>: the first argument stays unless
  the second is smaller, respectively larger.
\<close>

fun f_less :: "pyfloat \<Rightarrow> pyfloat \<Rightarrow> bool" where
  "f_less NaN b = False"
| "f_less a NaN = False"
| "f_less PosInf b = False"
| "f_less a NegInf = False"
| "f_less NegInf b = True"
| "f_less a PosInf = True"
| "f_less (Finite x) (Finite y) = (x < y)"

definition f_ge :: "pyfloat \<Rightarrow> pyfloat \<Rightarrow> bool" where
  "f_ge a b = (f_less b a \<or> (a = b \<and> a \<noteq> NaN))"

definition py_min :: "pyfloat \<Rightarrow> pyfloat \<Rightarrow> pyfloat" where
  "py_min a b = (if f_less b a then b else a)"

definition py_max :: "pyfloat \<Rightarrow> pyfloat \<Rightarrow> pyfloat" where
  "py_max a b = (if f_less a b then b else a)"

text \<open>
  The float operations of the interpreter that round or can fail, as the critic uses
  them: \<open>float(i)\<close> on an integer (\<open>None\<close>: OverflowError), \<open>float(s)\<close> on a
  string (\<open>None\<close>: ValueError), \<open>sum\<close> of a list of floats, division, and
  \<open>round(x, 1)\<close>.
\<close>

record float_ops =
  float_of_int :: "int \<Rightarrow> pyfloat option"
  float_of_str :: "string \<Rightarrow> pyfloat option"
  f_sum :: "pyfloat list \<Rightarrow> pyfloat"
  f_div :: "pyfloat \<Rightarrow> pyfloat \<Rightarrow> pyfloat"
  f_round1 :: "pyfloat \<Rightarrow> pyfloat"

text \<open>\<open>float(val)\<close> on a decoded JSON value.\<close>

fun py_float :: "float_ops \<Rightarrow> json \<Rightarrow> py_error + pyfloat" where
  "py_float ops JNull = Inl TypeError"
| "py_float ops (JBool b) = Inr (Finite (if b then 1 else 0))"
| "py_float ops (JInt i) =
     (case float_of_int ops i of None \<Rightarrow> Inl OverflowError | Some x \<Rightarrow> Inr x)"
| "py_float ops (JFloat x) = Inr x"
| "py_float ops (JStr s) =
     (case float_of_str ops s of None \<Rightarrow> Inl ValueError | Some x \<Rightarrow> Inr x)"
| "py_float ops (JArr xs) = Inl TypeError"
| "py_float ops (JObj kvs) = Inl TypeError"

text \<open>Truth value of a decoded JSON value, as \<open>if v\<close> tests it.\<close>

fun truthy :: "json \<Rightarrow> bool" where
  "truthy JNull = False"
| "truthy (JBool b) = b"
| "truthy (JInt i) = (i \<noteq> 0)"
| "truthy (JFloat x) = (x \<noteq> Finite 0)"
| "truthy (JStr s) = (s \<noteq> [])"
| "truthy (JArr xs) = (xs \<noteq> [])"
| "truthy (JObj kvs) = (kvs \<noteq> [])"

text \<open>
  The body of the loop over \<open>_SCORE_KEYS\<close>: \<open>val\<close> is \<open>scores_raw.get(key)\<close>,
  which is Python's None when the key is absent and when its value is JSON null. The
  handler is \<open>except (TypeError, ValueError)\<close>; any other exception of \<open>float\<close>
  leaves the function.
\<close>

definition clamp :: "pyfloat \<Rightarrow> pyfloat" where
  "clamp x = py_max (Finite 1) (py_min (Finite 10) x)"

definition score_of :: "float_ops \<Rightarrow> json option \<Rightarrow> py_error + pyfloat" where
  "score_of ops val =
     (case val of
        None \<Rightarrow> Inr (clamp DEFAULT_SCORE)
      | Some JNull \<Rightarrow> Inr (clamp DEFAULT_SCORE)
      | Some v \<Rightarrow>
          (case py_float ops v of
             Inl e \<Rightarrow> if e = TypeError \<or> e = ValueError then Inr (clamp DEFAULT_SCORE)
                      else Inl e
           | Inr x \<Rightarrow> Inr (clamp x)))"

fun scores_loop ::
  "float_ops \<Rightarrow> json_dict \<Rightarrow> string list \<Rightarrow> (string \<times> pyfloat) list
     \<Rightarrow> py_error + (string \<times> pyfloat) list" where
  "scores_loop ops scores_raw [] scores = Inr scores"
| "scores_loop ops scores_raw (key # keys) scores =
     (case score_of ops (map_of scores_raw key) of
        Inl e \<Rightarrow> Inl e
      | Inr x \<Rightarrow> scores_loop ops scores_raw keys (scores @ [(key, x)]))"

record evaluation =
  e_scores :: "(string \<times> pyfloat) list"
  e_overall_score :: pyfloat
  e_feedback :: string

definition default_evaluation_result :: evaluation where
  "default_evaluation_result =
     \<lparr>e_scores = map (\<lambda>k. (k, DEFAULT_SCORE)) SCORE_KEYS,
      e_overall_score = DEFAULT_SCORE,
      e_feedback = CANNOT_EVALUATE\<rparr>"

text \<open>
  \<open>join_lines\<close> is \<open>"\n".join\<close>. \<open>str_of\<close> formats a JSON value inside an
  f-string.
\<close>

fun join_lines :: "string list \<Rightarrow> string" where
  "join_lines [] = []"
| "join_lines [p] = p"
| "join_lines (p # q # ps) = p @ [CHR 0x0A] @ join_lines (q # ps)"

definition feedback_text :: "(json \<Rightarrow> string) \<Rightarrow> json option \<Rightarrow> string" where
  "feedback_text str_of feedback_raw =
     (case feedback_raw of
        Some (JObj fb) \<Rightarrow>
          (let parts = concat (map (\<lambda>k.
                 (let v = get_or (map_of fb k) (JStr [])
                  in if truthy v then [''- **'' @ k @ ''**: '' @ str_of v] else []))
                 SCORE_KEYS)
           in if parts \<noteq> [] then join_lines parts else NO_FEEDBACK)
      | Some (JStr s) \<Rightarrow> s
      | _ \<Rightarrow> NO_FEEDBACK)"

text \<open>
  The overall score before rounding: \<open>data.get("overall")\<close> converted by \<open>float\<close>,
  or the mean \<open>sum(scores.values()) / len(_SCORE_KEYS)\<close> when the key is absent or
  null, or when \<open>float\<close> raises TypeError or ValueError.
\<close>

definition overall_of ::
  "float_ops \<Rightarrow> json option \<Rightarrow> (string \<times> pyfloat) list \<Rightarrow> py_error + pyfloat" where
  "overall_of ops overall scores =
     (let mean = f_div ops (f_sum ops (map snd scores))
                   (Finite (of_nat (length SCORE_KEYS)))
      in case overall of
           None \<Rightarrow> Inr mean
         | Some JNull \<Rightarrow> Inr mean
         | Some v \<Rightarrow>
             (case py_float ops v of
                Inl e \<Rightarrow> if e = TypeError \<or> e = ValueError then Inr mean else Inl e
              | Inr x \<Rightarrow> Inr x))"

text \<open>
  \<open>QualityCritic._evaluate_report\<close>. \<open>llm\<close> is \<open>BaseAgent._call_llm_json\<close> for
  the prompt built from the report: the decoded completion, which need not be an
  object, or the empty object when the call or the decoding failed. On a value that is
  true but no dict, \<open>data.get\<close> raises AttributeError.
\<close>

definition evaluate_report ::
  "float_ops \<Rightarrow> (json \<Rightarrow> string) \<Rightarrow> (string \<Rightarrow> json) \<Rightarrow> string \<Rightarrow> string
     \<Rightarrow> py_error + evaluation" where
  "evaluate_report ops str_of llm topic report =
     (let data = llm report in
      if \<not> truthy data then Inr default_evaluation_result
      else (case data of
              JObj kvs \<Rightarrow>
                (case map_of kvs ''scores'' of
                   Some (JObj scores_raw) \<Rightarrow>
                     (case scores_loop ops scores_raw SCORE_KEYS [] of
                        Inl e \<Rightarrow> Inl e
                      | Inr scores \<Rightarrow>
                          (case overall_of ops (map_of kvs ''overall'') scores of
                             Inl e \<Rightarrow> Inl e
                           | Inr overall_score \<Rightarrow>
                               Inr \<lparr>e_scores = scores,
                                    e_overall_score = f_round1 ops overall_score,
                                    e_feedback =
                                      feedback_text str_of (map_of kvs ''feedback'')\<rparr>))
                 | _ \<Rightarrow> Inr default_evaluation_result)
            | _ \<Rightarrow> Inl AttributeError))"

text \<open>
  \<open>QualityCritic.execute\<close>. \<open>input_data\<close> is a dict; \<open>in_topic\<close> and
  \<open>in_report\<close> are what it holds under \<open>topic\<close> and \<open>report\<close>, nothing when
  the key is absent. \<open>report_str\<close> is the report handed on: the empty string for a
  value that is absent or false, and \<open>str(report)\<close> for one that is no string. A
  topic that is no string has no \<open>strip\<close>: AttributeError. A result has its four
  keys. An exception of \<open>_evaluate_report\<close> is not handled.
\<close>

record input_dict =
  in_topic :: "json option"
  in_report :: "json option"

definition report_str :: "(json \<Rightarrow> string) \<Rightarrow> input_dict \<Rightarrow> string" where
  "report_str str_of input_data =
     (let report = (case in_report input_data of
                      None \<Rightarrow> JStr []
                    | Some v \<Rightarrow> if truthy v then v else JStr [])
      in case report of JStr s \<Rightarrow> s | v \<Rightarrow> str_of v)"

record review =
  scores :: "(string \<times> pyfloat) list"
  overall_score :: pyfloat
  feedback :: string
  passed :: bool

definition critic_execute ::
  "float_ops \<Rightarrow> (json \<Rightarrow> string) \<Rightarrow> (string \<Rightarrow> json) \<Rightarrow> input_dict
     \<Rightarrow> py_error + review" where
  "critic_execute ops str_of llm input_data =
     (case get_or (in_topic input_data) (JStr []) of
        JStr t \<Rightarrow>
          (let topic = (if strip t = [] then DEFAULT_TOPIC else strip t);
               report = report_str str_of input_data
           in case evaluate_report ops str_of llm topic report of
                Inl e \<Rightarrow> Inl e
              | Inr ev \<Rightarrow>
                  (let overall = e_overall_score ev
                   in Inr \<lparr>scores = e_scores ev,
                           overall_score = overall,
                           feedback = e_feedback ev,
                           passed = f_ge overall PASS_THRESHOLD\<rparr>))
      | other \<Rightarrow> Inl AttributeError)"

text \<open>
  In the specification's words. The number a response supplies under a key: none when
  the key is missing or null or holds a list or an object, a string that is no number,
  or an integer no float can hold; true and false count as 1 and 0. A score clamped to
  the range from 1 to 10, where NaN goes to 10 as \<open>min\<close> and \<open>max\<close> leave it.
  An input whose topic is text: a string, or absent.
\<close>

fun supplied :: "float_ops \<Rightarrow> json option \<Rightarrow> pyfloat option" where
  "supplied ops None = None"
| "supplied ops (Some JNull) = None"
| "supplied ops (Some (JBool b)) = Some (Finite (if b then 1 else 0))"
| "supplied ops (Some (JInt i)) = float_of_int ops i"
| "supplied ops (Some (JFloat x)) = Some x"
| "supplied ops (Some (JStr s)) = float_of_str ops s"
| "supplied ops (Some (JArr xs)) = None"
| "supplied ops (Some (JObj kvs)) = None"


definition topic_is_text :: "input_dict \<Rightarrow> bool" where
  "topic_is_text inp =
     (case in_topic inp of None \<Rightarrow> True | Some (JStr t) \<Rightarrow> True | Some other \<Rightarrow> False)"


text \<open>The review of a report that could not be evaluated: every score 5, failed.\<close>

definition default_review :: review where
  "default_review =
     \<lparr>scores = map (\<lambda>k. (k, Finite 5)) SCORE_KEYS, overall_score = Finite 5,
      feedback = CANNOT_EVALUATE, passed = False\<rparr>"

text \<open>
  Example operations and completions. \<open>exact_ops\<close> computes without rounding error
  on finite values, rounds to one decimal with a tie going to the even digit, converts
  every integer, and takes no string for a number; Python's operations give the same
  results wherever the operands and the result are floats, as they are in the examples.
  The completions: one with two scores and no overall score, one whose own overall
  score is 6.96875, and one that gives an overall score of 9 but no scores. The input
  is a topic and a report, both strings.
\<close>

definition py_round1 :: "rat \<Rightarrow> rat" where
  "py_round1 x =
     (let y = x * 10; f = \<lfloor>y\<rfloor>; d = y - of_int f
      in of_int (if d < 1 / 2 then f
                 else if d > 1 / 2 then f + 1
                 else if even f then f else f + 1) / 10)"

fun finite_sum :: "pyfloat list \<Rightarrow> pyfloat" where
  "finite_sum [] = Finite 0"
| "finite_sum (Finite x # xs) =
     (case finite_sum xs of Finite y \<Rightarrow> Finite (x + y) | other \<Rightarrow> NaN)"
| "finite_sum (x # xs) = NaN"

fun finite_div :: "pyfloat \<Rightarrow> pyfloat \<Rightarrow> pyfloat" where
  "finite_div (Finite x) (Finite y) = (if y = 0 then NaN else Finite (x / y))"
| "finite_div a b = NaN"

fun finite_round1 :: "pyfloat \<Rightarrow> pyfloat" where
  "finite_round1 (Finite x) = Finite (py_round1 x)"
| "finite_round1 a = a"

definition exact_ops :: float_ops where
  "exact_ops =
     \<lparr>float_of_int = (\<lambda>i. Some (Finite (of_int i))),
      float_of_str = (\<lambda>s. None),
      f_sum = finite_sum,
      f_div = finite_div,
      f_round1 = finite_round1\<rparr>"




definition no_str :: "json \<Rightarrow> string" where
  "no_str v = []"


section \<open>Pipeline Coordinator (research\_coordinator.py)\<close>

text \<open>
  The dicts the stages hand on, with the keys \<open>run\<close> reads. \<open>run\<close> reads them with
  \<open>get\<close>, so a key may be absent (\<open>None\<close>); before a stage has run its dict is
  empty.
\<close>

record research_data =
  queries_used :: "string list option"
  source_count :: "int option"
  source_urls :: "string list option"

record analysis_result =
  clusters :: "json list option"
  insights :: "json list option"
  trends :: "json list option"

record writer_input =
  wi_topic :: string
  wi_analysis :: analysis_result
  wi_sources :: "string list"
  wi_feedback :: "string option"
  wi_report :: "string option"

record draft =
  d_topic :: string
  d_report :: string
  d_word_count :: nat
  d_has_revision :: bool

text \<open>The dict \<open>run\<close> hands to the Critic: the topic and the draft's report.\<close>

record critic_input =
  ci_topic :: string
  ci_report :: string

text \<open>
  The four agents are the coordinator's collaborators. Each \<open>execute\<close> either returns
  its dict or raises; the Writer and the Critic are called once per round and may answer
  differently each time, so they take the round number.
\<close>

record agents =
  researcher :: "string \<Rightarrow> py_error + research_data"
  analyzer :: "research_data \<Rightarrow> py_error + analysis_result"
  writer :: "nat \<Rightarrow> writer_input \<Rightarrow> py_error + draft"
  critic :: "nat \<Rightarrow> critic_input \<Rightarrow> py_error + review"

text \<open>
  The local variables of \<open>run\<close> that the Write/Critique loop changes.
  \<open>write_calls\<close> is not in the source: it counts the calls of \<open>writer.execute\<close>.
\<close>

record loop_state =
  ls_draft :: draft
  ls_review :: review
  revision_count :: nat
  ls_feedback :: "string option"
  previous_report :: string
  write_calls :: nat

definition initial_state :: loop_state where
  "initial_state =
     \<lparr>ls_draft = \<lparr>d_topic = [], d_report = [], d_word_count = 0, d_has_revision = False\<rparr>,
      ls_review = \<lparr>scores = [], overall_score = Finite 0, feedback = [], passed = False\<rparr>,
      revision_count = 0,
      ls_feedback = None,
      previous_report = [],
      write_calls = 0\<rparr>"

text \<open>
  The loop \<open>for round_num in range(self.max_revision_rounds + 1)\<close> over the rounds
  still to run. An exception of the Writer or of the Critic, and a review that passes,
  leave the loop.
\<close>

fun revision_loop ::
  "agents \<Rightarrow> string \<Rightarrow> analysis_result \<Rightarrow> research_data \<Rightarrow> nat list
     \<Rightarrow> loop_state \<Rightarrow> loop_state" where
  "revision_loop ags topic analysis rd [] s = s"
| "revision_loop ags topic analysis rd (round_num # rounds) s =
     (let given = (case ls_feedback s of None \<Rightarrow> False | Some f \<Rightarrow> f \<noteq> []);
          input =
            \<lparr>wi_topic = topic,
             wi_analysis = analysis,
             wi_sources = get_or (source_urls rd) [],
             wi_feedback = (if given then ls_feedback s else None),
             wi_report = (if given then Some (previous_report s) else None)\<rparr>
      in case writer ags round_num input of
           Inl e \<Rightarrow> s\<lparr>write_calls := write_calls s + 1\<rparr>
         | Inr d \<Rightarrow>
             (let s1 = s\<lparr>ls_draft := d, write_calls := write_calls s + 1\<rparr>
              in case critic ags round_num \<lparr>ci_topic = topic, ci_report = d_report d\<rparr> of
                   Inl e \<Rightarrow> s1
                 | Inr rv \<Rightarrow>
                     (let s2 = s1\<lparr>ls_review := rv\<rparr>
                      in if passed rv then s2
                         else revision_loop ags topic analysis rd rounds
                                (s2\<lparr>revision_count := revision_count s2 + 1,
                                    ls_feedback := Some (feedback rv),
                                    previous_report := d_report d\<rparr>))))"

record research_summary =
  rs_queries_used :: "string list"
  rs_source_count :: int
  insights_count :: nat

record run_result =
  rr_topic :: string
  rr_report :: string
  rr_score :: pyfloat
  rr_scores :: "(string \<times> pyfloat) list"
  rr_revision_count :: nat
  rr_research_summary :: research_summary

text \<open>
  \<open>ResearchCoordinator.run\<close>, for a coordinator with the given agents and
  \<open>max_revision_rounds\<close> (2 in \<open>__init__\<close>). The second component of the result is
  the number of Writer calls made.
\<close>

definition run :: "agents \<Rightarrow> nat \<Rightarrow> string \<Rightarrow> run_result \<times> nat" where
  "run ags max_revision_rounds topic0 =
     (let topic = (if strip topic0 = [] then DEFAULT_TOPIC else strip topic0);
          rd = (case researcher ags topic of
                  Inl e \<Rightarrow> \<lparr>queries_used = None, source_count = None, source_urls = None\<rparr>
                | Inr r \<Rightarrow> r);
          analysis = (case analyzer ags rd of
                        Inl e \<Rightarrow> \<lparr>clusters = None, insights = None, trends = None\<rparr>
                      | Inr a \<Rightarrow> a);
          s = revision_loop ags topic analysis rd [0..<max_revision_rounds + 1] initial_state
      in (\<lparr>rr_topic = topic,
           rr_report = d_report (ls_draft s),
           rr_score = overall_score (ls_review s),
           rr_scores = scores (ls_review s),
           rr_revision_count = revision_count s,
           rr_research_summary =
             \<lparr>rs_queries_used = get_or (queries_used rd) [],
              rs_source_count = get_or (source_count rd) 0,
              insights_count = length (get_or (insights analysis) [])\<rparr>\<rparr>,
          write_calls s))"

text \<open>
  Example agents: the Researcher and the Analyzer fail, the Writer returns a fixed
  draft, and the Critic is \<open>QualityCritic.execute\<close> on an empty completion, which
  scores 5.0 and never passes.
\<close>

definition failing_critic_agents :: agents where
  "failing_critic_agents =
     \<lparr>researcher = (\<lambda>topic. Inl Exception),
      analyzer = (\<lambda>rd. Inl Exception),
      writer = (\<lambda>n input. Inr \<lparr>d_topic = wi_topic input, d_report = ''draft'',
                                d_word_count = 1, d_has_revision = False\<rparr>),
      critic = (\<lambda>n input.
        critic_execute exact_ops no_str (\<lambda>r. JObj [])
          \<lparr>in_topic = Some (JStr (ci_topic input)),
           in_report = Some (JStr (ci_report input))\<rparr>)\<rparr>"

section \<open>Embedding Cache (utils/embeddings.py)\<close>

text \<open>
  The state of an \<open>EmbeddingGenerator\<close>: the cache dict and the counters. An
  embedding is a value of any type \<open>'e\<close>.
\<close>

record 'e EmbeddingGenerator =
  cache :: "string \<Rightarrow> 'e option"
  embedding_count :: nat
  api_call_count :: nat
  cache_hit_count :: nat
  cache_hits :: nat
  total_requests :: nat

text \<open>
  \<open>_call_api_with_retry\<close>, the loop over the attempts still to make. \<open>api text k\<close>
  is the outcome of attempt \<open>k\<close> of a call for \<open>text\<close>: the embedding, or
  \<open>None\<close> when the provider raises. The attempt before the last is followed by a
  sleep and the next attempt, the last one by an Exception.
\<close>

fun retry_loop ::
  "(string \<Rightarrow> nat \<Rightarrow> 'e option) \<Rightarrow> string \<Rightarrow> nat \<Rightarrow> nat list \<Rightarrow> 'e EmbeddingGenerator
     \<Rightarrow> (py_error + 'e) \<times> 'e EmbeddingGenerator" where
  "retry_loop api txt max_retries [] g = (Inl RuntimeError, g)"
| "retry_loop api txt max_retries (attempt # rest) g =
     (let g' = g\<lparr>api_call_count := api_call_count g + 1\<rparr>
      in case api txt attempt of
           Some embedding \<Rightarrow> (Inr embedding, g')
         | None \<Rightarrow>
             if attempt < max_retries - 1 then retry_loop api txt max_retries rest g'
             else (Inl Exception, g'))"

definition call_api_with_retry ::
  "(string \<Rightarrow> nat \<Rightarrow> 'e option) \<Rightarrow> string \<Rightarrow> 'e EmbeddingGenerator
     \<Rightarrow> (py_error + 'e) \<times> 'e EmbeddingGenerator" where
  "call_api_with_retry api txt g = retry_loop api txt 3 [0..<3] g"

definition create_embedding ::
  "(string \<Rightarrow> nat \<Rightarrow> 'e option) \<Rightarrow> 'e EmbeddingGenerator \<Rightarrow> string
     \<Rightarrow> (py_error + 'e) \<times> 'e EmbeddingGenerator" where
  "create_embedding api g txt =
     (if txt = [] \<or> strip txt = [] then (Inl ValueError, g)
      else
        (let g1 = g\<lparr>total_requests := total_requests g + 1\<rparr>
         in case cache g1 txt of
              Some embedding \<Rightarrow>
                (Inr embedding,
                 g1\<lparr>cache_hit_count := cache_hit_count g1 + 1,
                    cache_hits := cache_hits g1 + 1\<rparr>)
            | None \<Rightarrow>
                (case call_api_with_retry api txt g1 of
                   (Inl e, g2) \<Rightarrow> (Inl e, g2)
                 | (Inr embedding, g2) \<Rightarrow>
                     (Inr embedding,
                      g2\<lparr>cache := (cache g2)(txt \<mapsto> embedding),
                         embedding_count := embedding_count g2 + 1\<rparr>))))"

section \<open>Memory Store (memory\_manager.py)\<close>

record 'e document =
  doc_id :: string
  doc_text :: string
  doc_embedding :: 'e
  doc_metadata :: meta_dict

text \<open>
  The vector store engine is an external collaborator. The Memory Store uses two of its
  operations on the collection, the list of stored documents: the query for the
  \<open>n_results\<close> documents nearest to an embedding, under an optional metadata
  filter, which gives each document with its distance, and the insertion of a
  document. Either can raise.
\<close>

record 'e engine =
  eng_query ::
    "'e document list \<Rightarrow> 'e \<Rightarrow> nat \<Rightarrow> meta_dict option \<Rightarrow> py_error + ('e document \<times> rat) list"
  eng_add :: "'e document list \<Rightarrow> 'e document \<Rightarrow> py_error + 'e document list"

text \<open>
  An engine that does what the collaborator is specified to do, for a distance
  \<open>distance\<close> on embeddings: the query orders the documents that match the filter by
  distance, nearest first, and gives the first \<open>n_results\<close>; the insertion appends
  a document whose id is new and ignores one whose id is stored already.
\<close>

definition matches_filter :: "meta_dict option \<Rightarrow> 'e document \<Rightarrow> bool" where
  "matches_filter filter_dict d =
     (case filter_dict of
        None \<Rightarrow> True
      | Some f \<Rightarrow> list_all (\<lambda>kv. map_of (doc_metadata d) (fst kv) = Some (snd kv)) f)"

definition nearest_query ::
  "('e \<Rightarrow> 'e \<Rightarrow> rat) \<Rightarrow> 'e document list \<Rightarrow> 'e \<Rightarrow> nat \<Rightarrow> meta_dict option
     \<Rightarrow> py_error + ('e document \<times> rat) list" where
  "nearest_query distance docs q n_results filter_dict =
     Inr (map (\<lambda>d. (d, distance q (doc_embedding d)))
            (take n_results
               (sort_key (\<lambda>d. distance q (doc_embedding d))
                  (filter (matches_filter filter_dict) docs))))"

definition append_document ::
  "'e document list \<Rightarrow> 'e document \<Rightarrow> py_error + 'e document list" where
  "append_document docs d =
     Inr (if doc_id d \<in> set (map doc_id docs) then docs else docs @ [d])"

definition nearest_engine :: "('e \<Rightarrow> 'e \<Rightarrow> rat) \<Rightarrow> 'e engine" where
  "nearest_engine distance = \<lparr>eng_query = nearest_query distance, eng_add = append_document\<rparr>"

record 'e MemoryManager =
  collection :: "'e document list"
  embedding_generator :: "'e EmbeddingGenerator"

record search_hit =
  hit_id :: string
  hit_text :: string
  hit_metadata :: meta_dict
  hit_similarity :: rat

text \<open>
  \<open>except ValueError: raise\<close> and \<open>except Exception as e: raise Exception(...)\<close>,
  the two handlers of \<open>search_memory\<close> and \<open>add_to_memory\<close>.
\<close>

definition reraise :: "py_error \<Rightarrow> py_error" where
  "reraise e = (if e = ValueError then ValueError else Exception)"

definition format_hit :: "'e document \<times> rat \<Rightarrow> search_hit" where
  "format_hit r =
     \<lparr>hit_id = doc_id (fst r), hit_text = doc_text (fst r),
      hit_metadata = doc_metadata (fst r), hit_similarity = 1 - snd r\<rparr>"

definition search_memory ::
  "'e engine \<Rightarrow> (string \<Rightarrow> nat \<Rightarrow> 'e option) \<Rightarrow> 'e MemoryManager \<Rightarrow> string \<Rightarrow> nat
     \<Rightarrow> meta_dict option \<Rightarrow> (py_error + search_hit list) \<times> 'e MemoryManager" where
  "search_memory eng api mm query top_k filter_dict =
     (if query = [] \<or> strip query = [] then (Inl ValueError, mm)
      else
        (case create_embedding api (embedding_generator mm) (strip query) of
           (Inl e, g) \<Rightarrow> (Inl (reraise e), mm\<lparr>embedding_generator := g\<rparr>)
         | (Inr query_embedding, g) \<Rightarrow>
             (case eng_query eng (collection mm) query_embedding top_k filter_dict of
                Inl e \<Rightarrow> (Inl (reraise e), mm\<lparr>embedding_generator := g\<rparr>)
              | Inr results \<Rightarrow>
                  (Inr (map format_hit results), mm\<lparr>embedding_generator := g\<rparr>))))"

text \<open>
  \<open>check_duplicate\<close>: the \<open>try\<close> block, and the function with its handler
  \<open>except Exception: return None\<close>.
\<close>

definition check_duplicate_try ::
  "'e engine \<Rightarrow> (string \<Rightarrow> nat \<Rightarrow> 'e option) \<Rightarrow> 'e MemoryManager \<Rightarrow> string \<Rightarrow> rat
     \<Rightarrow> (py_error + search_hit option) \<times> 'e MemoryManager" where
  "check_duplicate_try eng api mm txt threshold =
     (if txt = [] \<or> strip txt = [] then (Inr None, mm)
      else
        (case search_memory eng api mm txt 1 None of
           (Inl e, mm') \<Rightarrow> (Inl e, mm')
         | (Inr results, mm') \<Rightarrow>
             (case results of
                [] \<Rightarrow> (Inr None, mm')
              | most_similar # rest \<Rightarrow>
                  if hit_similarity most_similar \<ge> threshold
                  then (Inr (Some most_similar), mm')
                  else (Inr None, mm'))))"

definition check_duplicate ::
  "'e engine \<Rightarrow> (string \<Rightarrow> nat \<Rightarrow> 'e option) \<Rightarrow> 'e MemoryManager \<Rightarrow> string \<Rightarrow> rat
     \<Rightarrow> (py_error + search_hit option) \<times> 'e MemoryManager" where
  "check_duplicate eng api mm txt threshold =
     (case check_duplicate_try eng api mm txt threshold of
        (Inl e, mm') \<Rightarrow> (Inr None, mm')
      | (Inr r, mm') \<Rightarrow> (Inr r, mm'))"

text \<open>\<open>d[k] = v\<close> on a dict kept in insertion order.\<close>

fun dict_set :: "('k \<times> 'v) list \<Rightarrow> 'k \<Rightarrow> 'v \<Rightarrow> ('k \<times> 'v) list" where
  "dict_set [] k v = [(k, v)]"
| "dict_set (kv # rest) k v =
     (if fst kv = k then (k, v) # rest else kv # dict_set rest k v)"

definition stamp_metadata :: "meta_dict option \<Rightarrow> string \<Rightarrow> string \<Rightarrow> meta_dict" where
  "stamp_metadata md now txt =
     (let m0 = get_or md [];
          src = get_or (map_of m0 ''source'') (MStr ''user_input'');
          m1 = (if map_of m0 ''timestamp'' = None then dict_set m0 ''timestamp'' (MStr now)
                else m0);
          m2 = dict_set m1 ''text_length'' (MInt (int (length txt)))
      in dict_set m2 ''source'' src)"

text \<open>
  \<open>add_to_memory\<close>. \<open>uuid\<close> is the value \<open>uuid.uuid4()\<close> gives if it is called,
  \<open>now\<close> the clock reading. The default threshold of \<open>check_duplicate\<close> is 0.95.
\<close>

definition add_to_memory ::
  "'e engine \<Rightarrow> (string \<Rightarrow> nat \<Rightarrow> 'e option) \<Rightarrow> string \<Rightarrow> string \<Rightarrow> 'e MemoryManager
     \<Rightarrow> string \<Rightarrow> meta_dict option \<Rightarrow> string option \<Rightarrow> bool
     \<Rightarrow> (py_error + string) \<times> 'e MemoryManager" where
  "add_to_memory eng api uuid now mm txt md document_id check_dup =
     (if txt = [] \<or> strip txt = [] then (Inl ValueError, mm)
      else
        (let t = strip txt;
             checked = (if check_dup then check_duplicate eng api mm t (95 / 100)
                        else (Inr None, mm))
         in case checked of
              (Inl e, mm1) \<Rightarrow> (Inl (reraise e), mm1)
            | (Inr (Some duplicate), mm1) \<Rightarrow> (Inr (hit_id duplicate), mm1)
            | (Inr None, mm1) \<Rightarrow>
                (let did = get_or document_id uuid
                 in case create_embedding api (embedding_generator mm1) t of
                      (Inl e, g) \<Rightarrow> (Inl (reraise e), mm1\<lparr>embedding_generator := g\<rparr>)
                    | (Inr embedding, g) \<Rightarrow>
                        (let d = \<lparr>doc_id = did, doc_text = t, doc_embedding = embedding,
                                  doc_metadata = stamp_metadata md now t\<rparr>
                         in case eng_add eng (collection mm1) d of
                              Inl e \<Rightarrow> (Inl (reraise e), mm1\<lparr>embedding_generator := g\<rparr>)
                            | Inr docs \<Rightarrow>
                                (Inr did,
                                 mm1\<lparr>collection := docs, embedding_generator := g\<rparr>)))))"

text \<open>
  The stored document nearest to an embedding, for the engine above: the first in
  storage order among those at the least distance.
\<close>

definition nearest :: "('e \<Rightarrow> 'e \<Rightarrow> rat) \<Rightarrow> 'e \<Rightarrow> 'e document list \<Rightarrow> 'e document" where
  "nearest distance q docs = hd (sort_key (\<lambda>d. distance q (doc_embedding d)) docs)"

text \<open>
  What the Memory Store needs of an engine to speak of the nearest neighbour: asked for
  one result without a filter, the engine answers with a stored document that no other
  stored document is nearer to the query than, at its distance, and with nothing when
  the store is empty. Which of several documents at the least distance it picks is left
  open.
\<close>

definition answers_nearest :: "('e \<Rightarrow> 'e \<Rightarrow> rat) \<Rightarrow> 'e engine \<Rightarrow> bool" where
  "answers_nearest distance eng \<longleftrightarrow>
     (\<forall>docs q.
        if docs = [] then eng_query eng docs q 1 None = Inr []
        else (\<exists>d\<in>set docs.
                eng_query eng docs q 1 None = Inr [(d, distance q (doc_embedding d))]
                \<and> (\<forall>d'\<in>set docs.
                     distance q (doc_embedding d) \<le> distance q (doc_embedding d'))))"

text \<open>
  What the embedding provider gives for a text that is not cached: the embedding of the
  first of its three attempts that succeeds, if any, and the number of attempts made
  until then.
\<close>

definition provided :: "(string \<Rightarrow> nat \<Rightarrow> 'e option) \<Rightarrow> string \<Rightarrow> 'e option" where
  "provided api s =
     (case api s 0 of
        Some e \<Rightarrow> Some e
      | None \<Rightarrow> (case api s 1 of Some e \<Rightarrow> Some e | None \<Rightarrow> api s 2))"

definition attempts_made :: "(string \<Rightarrow> nat \<Rightarrow> 'e option) \<Rightarrow> string \<Rightarrow> nat" where
  "attempts_made api s =
     (case api s 0 of Some e \<Rightarrow> 1 | None \<Rightarrow> (case api s 1 of Some e \<Rightarrow> 2 | None \<Rightarrow> 3))"

text \<open>
  The embedding of a text as the Memory Store sees it: the cached one, else the
  provider's.
\<close>

definition embedding_of ::
  "(string \<Rightarrow> nat \<Rightarrow> 'e option) \<Rightarrow> 'e EmbeddingGenerator \<Rightarrow> string \<Rightarrow> 'e option" where
  "embedding_of api g s = (case cache g s of Some e \<Rightarrow> Some e | None \<Rightarrow> provided api s)"

text \<open>
  The Embedding Cache after one lookup of a text. Every lookup counts as a request. A
  cached text counts as a hit on both hit counters and changes nothing else. A text
  that is not cached costs one provider call for each attempt made; an embedding
  obtained is stored under the text and counted, and after three failed attempts the
  cache is as before.
\<close>

definition after_lookup ::
  "(string \<Rightarrow> nat \<Rightarrow> 'e option) \<Rightarrow> 'e EmbeddingGenerator \<Rightarrow> string \<Rightarrow> 'e EmbeddingGenerator" where
  "after_lookup api g s =
     (case cache g s of
        Some e \<Rightarrow>
          g\<lparr>total_requests := total_requests g + 1,
            cache_hit_count := cache_hit_count g + 1,
            cache_hits := cache_hits g + 1\<rparr>
      | None \<Rightarrow>
          (case provided api s of
             Some q \<Rightarrow>
               g\<lparr>total_requests := total_requests g + 1,
                 api_call_count := api_call_count g + attempts_made api s,
                 cache := (cache g)(s \<mapsto> q),
                 embedding_count := embedding_count g + 1\<rparr>
           | None \<Rightarrow>
               g\<lparr>total_requests := total_requests g + 1,
                 api_call_count := api_call_count g + 3\<rparr>))"

text \<open>
  Examples. Embeddings are natural numbers at distance 0 from themselves and 1 from each
  other; one provider embeds every text as 7 at the first attempt and one fails at
  every attempt; one engine always raises; the generator and the store start empty.
\<close>

definition unit_distance :: "nat \<Rightarrow> nat \<Rightarrow> rat" where
  "unit_distance a b = (if a = b then 0 else 1)"

definition api_seven :: "string \<Rightarrow> nat \<Rightarrow> nat option" where
  "api_seven txt attempt = Some 7"

definition api_down :: "string \<Rightarrow> nat \<Rightarrow> nat option" where
  "api_down txt attempt = None"

definition broken_engine :: "nat engine" where
  "broken_engine =
     \<lparr>eng_query = (\<lambda>docs q n f. Inl RuntimeError), eng_add = (\<lambda>docs d. Inl RuntimeError)\<rparr>"

definition new_generator :: "nat EmbeddingGenerator" where
  "new_generator =
     \<lparr>cache = Map.empty, embedding_count = 0, api_call_count = 0, cache_hit_count = 0,
      cache_hits = 0, total_requests = 0\<rparr>"

definition empty_store :: "nat MemoryManager" where
  "empty_store = \<lparr>collection = [], embedding_generator = new_generator\<rparr>"

definition stored_ev :: "nat document" where
  "stored_ev =
     \<lparr>doc_id = ''doc-1'', doc_text = ''ev'', doc_embedding = 7, doc_metadata = []\<rparr>"

definition store_with_ev :: "nat MemoryManager" where
  "store_with_ev = \<lparr>collection = [stored_ev], embedding_generator = new_generator\<rparr>"

section \<open>Strings\<close>

lemma strip_Nil [simp]: "strip [] = []"
  by (simp add: strip_def)

section \<open>Task Scheduler: selection and retry budget\<close>

lemma sort_key_Nil_iff: "sort_key f xs = [] \<longleftrightarrow> xs = []"
  by (metis length_sort list.size(3) length_0_conv)

lemma hd_insort_key:
  "hd (insort_key f x ys) = (if ys = [] \<or> f x \<le> f (hd ys) then x else hd ys)"
  by (cases ys) auto

lemma hd_sort_key_split:
  "xs \<noteq> [] \<Longrightarrow>
   \<exists>ys zs. xs = ys @ hd (sort_key f xs) # zs
     \<and> (\<forall>y\<in>set ys. f (hd (sort_key f xs)) < f y)
     \<and> (\<forall>z\<in>set zs. f (hd (sort_key f xs)) \<le> f z)"
proof (induction xs)
  case Nil
  then show ?case by simp
next
  case (Cons x xs)
  show ?case
  proof (cases "xs = []")
    case True
    then have "[x] = [] @ x # []" by simp
    then show ?thesis using True by (intro exI[of _ "[]"]) simp
  next
    case False
    let ?m = "hd (sort_key f xs)"
    from Cons.IH [OF False] obtain ys zs where
      split: "xs = ys @ ?m # zs" and
      before: "\<forall>y\<in>set ys. f ?m < f y" and
      after: "\<forall>z\<in>set zs. f ?m \<le> f z"
      by blast
    have ne: "sort_key f xs \<noteq> []" using False by (simp add: sort_key_Nil_iff)
    have hd_eq: "hd (sort_key f (x # xs)) = (if f x \<le> f ?m then x else ?m)"
      using ne by (simp add: hd_insort_key)
    show ?thesis
    proof (cases "f x \<le> f ?m")
      case True
      have all: "\<forall>z\<in>set xs. f x \<le> f z"
      proof
        fix z assume "z \<in> set xs"
        then have "z \<in> set ys \<or> z = ?m \<or> z \<in> set zs"
          using split by (metis Un_iff set_ConsD set_append)
        then show "f x \<le> f z" using True before after by fastforce
      qed
      have "x # xs = [] @ hd (sort_key f (x # xs)) # xs"
        using hd_eq True by simp
      moreover have "\<forall>z\<in>set xs. f (hd (sort_key f (x # xs))) \<le> f z"
        using hd_eq True all by simp
      ultimately show ?thesis by (metis empty_iff empty_set)
    next
      case False
      then have h: "hd (sort_key f (x # xs)) = ?m" using hd_eq by simp
      have "x # xs = (x # ys) @ ?m # zs" using split by simp
      moreover have "\<forall>y\<in>set (x # ys). f ?m < f y" using before False by auto
      ultimately show ?thesis using after h by metis
    qed
  qed
qed

lemma lowest_priority_props:
  assumes "cands \<noteq> []"
  shows "lowest_priority tasks cands \<in> set cands"
    and "\<forall>j\<in>set cands. priority (tasks ! lowest_priority tasks cands) \<le> priority (tasks ! j)"
proof -
  let ?f = "\<lambda>i. priority (tasks ! i)"
  from hd_sort_key_split [OF assms, of ?f] obtain ys zs where
    split: "cands = ys @ hd (sort_key ?f cands) # zs" and
    before: "\<forall>y\<in>set ys. ?f (hd (sort_key ?f cands)) < ?f y" and
    after: "\<forall>z\<in>set zs. ?f (hd (sort_key ?f cands)) \<le> ?f z"
    by blast
  show "lowest_priority tasks cands \<in> set cands"
    unfolding lowest_priority_def using split by (metis in_set_conv_decomp)
  show "\<forall>j\<in>set cands. priority (tasks ! lowest_priority tasks cands) \<le> priority (tasks ! j)"
  proof
    fix j assume "j \<in> set cands"
    then have "j \<in> set ys \<or> j = hd (sort_key ?f cands) \<or> j \<in> set zs"
      using split by (metis Un_iff set_ConsD set_append)
    then show "priority (tasks ! lowest_priority tasks cands) \<le> priority (tasks ! j)"
      unfolding lowest_priority_def using before after by fastforce
  qed
qed

lemma lowest_priority_first:
  assumes "cands \<noteq> []" and "sorted cands" and "distinct cands"
    and "j \<in> set cands" and "j < lowest_priority tasks cands"
  shows "priority (tasks ! lowest_priority tasks cands) < priority (tasks ! j)"
proof -
  let ?f = "\<lambda>i. priority (tasks ! i)"
  let ?m = "hd (sort_key ?f cands)"
  from hd_sort_key_split [OF assms(1), of ?f] obtain ys zs where
    split: "cands = ys @ ?m # zs" and
    before: "\<forall>y\<in>set ys. ?f ?m < ?f y" and
    after: "\<forall>z\<in>set zs. ?f ?m \<le> ?f z"
    by blast
  have "sorted (ys @ ?m # zs)" using assms(2) split by simp
  then have "\<forall>z\<in>set zs. ?m \<le> z" by (simp add: sorted_append)
  moreover have "j \<noteq> ?m" using assms(5) by (simp add: lowest_priority_def)
  moreover have "j \<in> set ys \<or> j = ?m \<or> j \<in> set zs"
    using assms(4) split by (metis Un_iff set_ConsD set_append)
  ultimately have "j \<in> set ys" using assms(5) by (auto simp: lowest_priority_def)
  then show ?thesis using before by (simp add: lowest_priority_def)
qed

lemma get_task_by_id_first:
  "get_task_by_id tasks d = Some dep \<longleftrightarrow>
     (\<exists>j<length tasks. tasks ! j = dep \<and> task_id dep = d
        \<and> (\<forall>k<j. task_id (tasks ! k) \<noteq> d))"
proof (induction tasks)
  case Nil
  then show ?case by simp
next
  case (Cons task rest)
  show ?case
  proof (cases "task_id task = d")
    case True
    have "(\<exists>j<length (task # rest). (task # rest) ! j = dep \<and> task_id dep = d
        \<and> (\<forall>k<j. task_id ((task # rest) ! k) \<noteq> d)) \<longleftrightarrow> task = dep"
    proof
      assume "\<exists>j<length (task # rest). (task # rest) ! j = dep \<and> task_id dep = d
        \<and> (\<forall>k<j. task_id ((task # rest) ! k) \<noteq> d)"
      then obtain j where j: "(task # rest) ! j = dep"
        "\<forall>k<j. task_id ((task # rest) ! k) \<noteq> d" by blast
      have "j = 0"
      proof (rule ccontr)
        assume "j \<noteq> 0"
        then have "0 < j" by simp
        with j(2) have "task_id ((task # rest) ! 0) \<noteq> d" by blast
        with True show False by simp
      qed
      with j(1) show "task = dep" by simp
    next
      assume "task = dep"
      with True have "(task # rest) ! 0 = dep \<and> task_id dep = d
        \<and> (\<forall>k<0. task_id ((task # rest) ! k) \<noteq> d)" by simp
      then show "\<exists>j<length (task # rest). (task # rest) ! j = dep \<and> task_id dep = d
        \<and> (\<forall>k<j. task_id ((task # rest) ! k) \<noteq> d)" by (intro exI [of _ 0]) simp
    qed
    with True show ?thesis by simp
  next
    case False
    have "(\<exists>j<length (task # rest). (task # rest) ! j = dep \<and> task_id dep = d
        \<and> (\<forall>k<j. task_id ((task # rest) ! k) \<noteq> d))
      \<longleftrightarrow> (\<exists>j<length rest. rest ! j = dep \<and> task_id dep = d
        \<and> (\<forall>k<j. task_id (rest ! k) \<noteq> d))"
    proof
      assume "\<exists>j<length (task # rest). (task # rest) ! j = dep \<and> task_id dep = d
        \<and> (\<forall>k<j. task_id ((task # rest) ! k) \<noteq> d)"
      then obtain j where j: "j < length (task # rest)" "(task # rest) ! j = dep"
        "task_id dep = d" "\<forall>k<j. task_id ((task # rest) ! k) \<noteq> d" by blast
      from j(2,3) False have "j \<noteq> 0" by (cases j) auto
      then obtain n where n: "j = Suc n" by (cases j) auto
      have "\<forall>k<n. task_id (rest ! k) \<noteq> d"
      proof (intro allI impI)
        fix k assume "k < n"
        then have "Suc k < j" using n by simp
        with j(4) have "task_id ((task # rest) ! Suc k) \<noteq> d" by blast
        then show "task_id (rest ! k) \<noteq> d" by simp
      qed
      with j n show "\<exists>j<length rest. rest ! j = dep \<and> task_id dep = d
        \<and> (\<forall>k<j. task_id (rest ! k) \<noteq> d)" by (intro exI [of _ n]) simp
    next
      assume "\<exists>j<length rest. rest ! j = dep \<and> task_id dep = d
        \<and> (\<forall>k<j. task_id (rest ! k) \<noteq> d)"
      then obtain n where n: "n < length rest" "rest ! n = dep" "task_id dep = d"
        "\<forall>k<n. task_id (rest ! k) \<noteq> d" by blast
      have "\<forall>k<Suc n. task_id ((task # rest) ! k) \<noteq> d"
      proof (intro allI impI)
        fix k assume k: "k < Suc n"
        show "task_id ((task # rest) ! k) \<noteq> d"
        proof (cases k)
          case 0
          with False show ?thesis by simp
        next
          case (Suc m)
          with k n(4) show ?thesis by simp
        qed
      qed
      with n show "\<exists>j<length (task # rest). (task # rest) ! j = dep \<and> task_id dep = d
        \<and> (\<forall>k<j. task_id ((task # rest) ! k) \<noteq> d)" by (intro exI [of _ "Suc n"]) simp
    qed
    with False Cons.IH show ?thesis by simp
  qed
qed

lemma dependency_completed_lookup:
  "dependency_completed tasks d \<longleftrightarrow>
     (\<exists>dep. get_task_by_id tasks d = Some dep \<and> status dep = COMPLETED)"
  unfolding dependency_completed_def get_task_by_id_first by auto

lemma dependency_completed_unique:
  assumes "distinct (map task_id tasks)"
  shows "dependency_completed tasks d \<longleftrightarrow>
     (\<exists>j<length tasks. task_id (tasks ! j) = d \<and> status (tasks ! j) = COMPLETED)"
proof
  assume "dependency_completed tasks d"
  then show "\<exists>j<length tasks. task_id (tasks ! j) = d \<and> status (tasks ! j) = COMPLETED"
    by (auto simp: dependency_completed_def)
next
  assume "\<exists>j<length tasks. task_id (tasks ! j) = d \<and> status (tasks ! j) = COMPLETED"
  then obtain j where j: "j < length tasks" "task_id (tasks ! j) = d"
    "status (tasks ! j) = COMPLETED" by blast
  have "\<forall>k<j. task_id (tasks ! k) \<noteq> d"
  proof (intro allI impI)
    fix k assume k: "k < j"
    have "k < length (map task_id tasks)" "j < length (map task_id tasks)" "k \<noteq> j"
      using k j(1) by simp_all
    then have "map task_id tasks ! k \<noteq> map task_id tasks ! j"
      using assms nth_eq_iff_index_eq [of "map task_id tasks" k j] by blast
    then show "task_id (tasks ! k) \<noteq> d" using k j(1,2) by simp
  qed
  with j show "dependency_completed tasks d"
    unfolding dependency_completed_def by blast
qed

lemma deps_loop_iff:
  "deps_loop tasks ds \<longleftrightarrow> (\<forall>d\<in>set ds. dependency_completed tasks d)"
  by (induction ds) (auto simp: dependency_completed_lookup split: option.splits)

lemma executable_iff: "i \<in> set (executable tasks) \<longleftrightarrow> eligible tasks PENDING i"
  by (auto simp: executable_def eligible_def dependencies_met_def deps_loop_iff)

lemma retryable_iff: "i \<in> set (retryable tasks) \<longleftrightarrow> eligible tasks FAILED i"
  by (auto simp: retryable_def eligible_def dependencies_met_def deps_loop_iff)

lemma executable_sorted: "sorted (executable tasks) \<and> distinct (executable tasks)"
  by (simp add: executable_def sorted_wrt_filter)

lemma retryable_sorted: "sorted (retryable tasks) \<and> distinct (retryable tasks)"
  by (simp add: retryable_def sorted_wrt_filter)

lemma chosen_is_best:
  assumes ne: "cands \<noteq> []" and so: "sorted cands \<and> distinct cands"
    and mem: "\<And>j. j \<in> set cands \<longleftrightarrow> eligible tasks st j"
  shows "eligible tasks st (lowest_priority tasks cands)"
    and "eligible tasks st j \<Longrightarrow>
           priority (tasks ! lowest_priority tasks cands) \<le> priority (tasks ! j)
         \<and> (j < lowest_priority tasks cands \<longrightarrow>
              priority (tasks ! lowest_priority tasks cands) < priority (tasks ! j))"
proof -
  show "eligible tasks st (lowest_priority tasks cands)"
    using lowest_priority_props(1) [OF ne] mem by blast
  assume "eligible tasks st j"
  then have j: "j \<in> set cands" using mem by blast
  show "priority (tasks ! lowest_priority tasks cands) \<le> priority (tasks ! j)
         \<and> (j < lowest_priority tasks cands \<longrightarrow>
              priority (tasks ! lowest_priority tasks cands) < priority (tasks ! j))"
    using lowest_priority_props(2) [OF ne] lowest_priority_first [OF ne _ _ j] so j by blast
qed

lemma no_candidates:
  "executable tasks = [] \<longleftrightarrow> (\<forall>j. \<not> eligible tasks PENDING j)"
  "retryable tasks = [] \<longleftrightarrow> (\<forall>j. \<not> eligible tasks FAILED j)"
  using executable_iff [of _ tasks] retryable_iff [of _ tasks]
  by (metis empty_iff empty_set equals0I set_empty)+

text \<open>
  Claim C4. \<open>get_next_task\<close> returns nothing exactly when no task is eligible, as
  pending or as failed with attempts left, and then leaves the task list as it was.
  Otherwise the task it returns is an eligible pending one, or an eligible failed one
  when no pending task is eligible; no eligible task of that status has a lower
  priority, and every such task declared earlier has a strictly higher one (ties go to
  the earlier declaration). The returned task is the one stored at that position, now
  in progress and with one more attempt; no other task changes. Eligibility is the
  specification's: every dependency id belongs to a completed task, and where the ids
  of the list are distinct that is any task of the list carrying the id.
\<close>

theorem get_next_task_selection:
  "(fst (get_next_task tasks) = None \<longleftrightarrow>
      (\<forall>j. \<not> eligible tasks PENDING j \<and> \<not> eligible tasks FAILED j))
   \<and> (fst (get_next_task tasks) = None \<longrightarrow> snd (get_next_task tasks) = tasks)
   \<and> (get_next_task tasks = (Some (i, task), tasks') \<longrightarrow>
        (eligible tasks PENDING i
           \<or> (eligible tasks FAILED i \<and> (\<forall>j. \<not> eligible tasks PENDING j)))
        \<and> (\<forall>j. eligible tasks (status (tasks ! i)) j \<longrightarrow>
              priority (tasks ! i) \<le> priority (tasks ! j)
              \<and> (j < i \<longrightarrow> priority (tasks ! i) < priority (tasks ! j)))
        \<and> tasks' = tasks[i := (tasks ! i)\<lparr>status := IN_PROGRESS,
                                              attempts := attempts (tasks ! i) + 1\<rparr>]
        \<and> task = tasks' ! i
        \<and> status task = IN_PROGRESS \<and> attempts task = attempts (tasks ! i) + 1)
   \<and> (distinct (map task_id tasks) \<longrightarrow>
        (eligible tasks st n \<longleftrightarrow>
           n < length tasks \<and> status (tasks ! n) = st
           \<and> (\<forall>d\<in>set (dependencies (tasks ! n)).
                 \<exists>j<length tasks. task_id (tasks ! j) = d \<and> status (tasks ! j) = COMPLETED)
           \<and> attempts (tasks ! n) < max_attempts (tasks ! n)))"
proof -
  have unique: "distinct (map task_id tasks) \<longrightarrow>
        (eligible tasks st n \<longleftrightarrow>
           n < length tasks \<and> status (tasks ! n) = st
           \<and> (\<forall>d\<in>set (dependencies (tasks ! n)).
                 \<exists>j<length tasks. task_id (tasks ! j) = d \<and> status (tasks ! j) = COMPLETED)
           \<and> attempts (tasks ! n) < max_attempts (tasks ! n))"
    by (simp add: eligible_def dependency_completed_unique)
  have main: "(fst (get_next_task tasks) = None \<longleftrightarrow>
      (\<forall>j. \<not> eligible tasks PENDING j \<and> \<not> eligible tasks FAILED j))
   \<and> (fst (get_next_task tasks) = None \<longrightarrow> snd (get_next_task tasks) = tasks)
   \<and> (get_next_task tasks = (Some (i, task), tasks') \<longrightarrow>
        (eligible tasks PENDING i
           \<or> (eligible tasks FAILED i \<and> (\<forall>j. \<not> eligible tasks PENDING j)))
        \<and> (\<forall>j. eligible tasks (status (tasks ! i)) j \<longrightarrow>
              priority (tasks ! i) \<le> priority (tasks ! j)
              \<and> (j < i \<longrightarrow> priority (tasks ! i) < priority (tasks ! j)))
        \<and> tasks' = tasks[i := (tasks ! i)\<lparr>status := IN_PROGRESS,
                                              attempts := attempts (tasks ! i) + 1\<rparr>]
        \<and> task = tasks' ! i
        \<and> status task = IN_PROGRESS \<and> attempts task = attempts (tasks ! i) + 1)"
  proof (cases "executable tasks = []")
    case True
    note ex = True
    show ?thesis
    proof (cases "retryable tasks = []")
      case True
      then show ?thesis using ex no_candidates [of tasks] by (simp add: get_next_task_def)
    next
      case False
      let ?i = "lowest_priority tasks (retryable tasks)"
      have el: "eligible tasks FAILED ?i"
        using chosen_is_best(1) [OF False retryable_sorted retryable_iff] .
      then have st: "status (tasks ! ?i) = FAILED" and len: "?i < length tasks"
        by (simp_all add: eligible_def)
      have best: "\<forall>j. eligible tasks FAILED j \<longrightarrow>
          priority (tasks ! ?i) \<le> priority (tasks ! j)
          \<and> (j < ?i \<longrightarrow> priority (tasks ! ?i) < priority (tasks ! j))"
        using chosen_is_best(2) [OF False retryable_sorted retryable_iff] by blast
      have res: "get_next_task tasks =
          (Some (?i, start_task tasks ?i ! ?i), start_task tasks ?i)"
        using ex False by (simp add: get_next_task_def Let_def)
      show ?thesis
        using res el st len best ex no_candidates(1) [of tasks]
        by (auto simp: start_task_def)
    qed
  next
    case False
    let ?i = "lowest_priority tasks (executable tasks)"
    have el: "eligible tasks PENDING ?i"
      using chosen_is_best(1) [OF False executable_sorted executable_iff] .
    then have st: "status (tasks ! ?i) = PENDING" and len: "?i < length tasks"
      by (simp_all add: eligible_def)
    have best: "\<forall>j. eligible tasks PENDING j \<longrightarrow>
        priority (tasks ! ?i) \<le> priority (tasks ! j)
        \<and> (j < ?i \<longrightarrow> priority (tasks ! ?i) < priority (tasks ! j))"
      using chosen_is_best(2) [OF False executable_sorted executable_iff] by blast
    have res: "get_next_task tasks =
        (Some (?i, start_task tasks ?i ! ?i), start_task tasks ?i)"
      using False by (simp add: get_next_task_def Let_def)
    show ?thesis
      using res el st len best
      by (auto simp: start_task_def)
  qed
  from main unique show ?thesis by blast
qed

theorem get_next_task_selection_witness:
  "get_next_task example_tasks =
     (Some (2, \<lparr>task_id = ''C'', description = ''c'', priority = 1, dependencies = [''A''],
                status = IN_PROGRESS, result = None, attempts = 1, max_attempts = 3\<rparr>),
      example_tasks[2 := \<lparr>task_id = ''C'', description = ''c'', priority = 1,
                dependencies = [''A''], status = IN_PROGRESS, result = None, attempts = 1,
                max_attempts = 3\<rparr>])
   \<and> eligible example_tasks PENDING 1
   \<and> eligible example_tasks PENDING 2
   \<and> priority (example_tasks ! 2) < priority (example_tasks ! 1)
   \<and> distinct (map task_id blocked_tasks)
   \<and> \<not> eligible blocked_tasks PENDING 1
   \<and> priority (blocked_tasks ! 1) < priority (blocked_tasks ! 0)
   \<and> fst (get_next_task blocked_tasks)
       = Some (0, \<lparr>task_id = ''A'', description = ''a'', priority = 5, dependencies = [],
                    status = IN_PROGRESS, result = None, attempts = 1, max_attempts = 3\<rparr>)"
proof -
  let ?c = "\<lparr>task_id = ''C'', description = ''c'', priority = 1, dependencies = [''A''],
             status = IN_PROGRESS, result = None, attempts = 1, max_attempts = 3\<rparr>"
  have res: "get_next_task example_tasks = (Some (2, ?c), example_tasks[2 := ?c])"
    by code_simp
  have "1 \<in> set (executable example_tasks)" by code_simp
  then have e1: "eligible example_tasks PENDING 1" by (simp add: executable_iff)
  have st: "status (example_tasks ! 2) = PENDING" by code_simp
  from get_next_task_selection [of example_tasks 2 ?c "example_tasks[2 := ?c]"] res
  have sel: "eligible example_tasks PENDING 2
        \<or> (eligible example_tasks FAILED 2 \<and> (\<forall>j. \<not> eligible example_tasks PENDING j))"
    and best: "\<forall>j. eligible example_tasks (status (example_tasks ! 2)) j \<longrightarrow>
        priority (example_tasks ! 2) \<le> priority (example_tasks ! j)
        \<and> (j < 2 \<longrightarrow> priority (example_tasks ! 2) < priority (example_tasks ! j))"
    by blast+
  from sel e1 have e2: "eligible example_tasks PENDING 2" by blast
  from best st e1 have lt: "priority (example_tasks ! 2) < priority (example_tasks ! 1)"
    by simp
  have dist: "distinct (map task_id blocked_tasks)" by (simp add: blocked_tasks_def)
  have nocomp: "\<not> (\<exists>j<length blocked_tasks. task_id (blocked_tasks ! j) = ''A''
      \<and> status (blocked_tasks ! j) = COMPLETED)"
  proof
    assume "\<exists>j<length blocked_tasks. task_id (blocked_tasks ! j) = ''A''
      \<and> status (blocked_tasks ! j) = COMPLETED"
    then obtain j where j: "j < length blocked_tasks"
      "status (blocked_tasks ! j) = COMPLETED" by blast
    have "\<forall>t\<in>set blocked_tasks. status t \<noteq> COMPLETED" by (simp add: blocked_tasks_def)
    then show False using j nth_mem by blast
  qed
  have deps: "dependencies (blocked_tasks ! 1) = [''A'']" by (simp add: blocked_tasks_def)
  from get_next_task_selection [of blocked_tasks _ _ _ PENDING 1] dist
  have "eligible blocked_tasks PENDING 1 \<longleftrightarrow>
      1 < length blocked_tasks \<and> status (blocked_tasks ! 1) = PENDING
      \<and> (\<forall>d\<in>set (dependencies (blocked_tasks ! 1)).
            \<exists>j<length blocked_tasks. task_id (blocked_tasks ! j) = d
              \<and> status (blocked_tasks ! j) = COMPLETED)
      \<and> attempts (blocked_tasks ! 1) < max_attempts (blocked_tasks ! 1)"
    by blast
  then have blocked: "\<not> eligible blocked_tasks PENDING 1"
    using nocomp deps by simp
  have pr: "priority (blocked_tasks ! 1) < priority (blocked_tasks ! 0)"
    by (simp add: blocked_tasks_def)
  have first: "fst (get_next_task blocked_tasks)
       = Some (0, \<lparr>task_id = ''A'', description = ''a'', priority = 5, dependencies = [],
                    status = IN_PROGRESS, result = None, attempts = 1, max_attempts = 3\<rparr>)"
    by code_simp
  from res e1 e2 lt dist blocked pr first show ?thesis by blast
qed

lemma get_next_task_Some:
  assumes "get_next_task tasks = (Some (i, task), tasks')"
  shows "i < length tasks" and "attempts (tasks ! i) < max_attempts (tasks ! i)"
    and "tasks' = start_task tasks i"
proof -
  have both: "((executable tasks \<noteq> [] \<and> i = lowest_priority tasks (executable tasks))
      \<or> (retryable tasks \<noteq> [] \<and> i = lowest_priority tasks (retryable tasks)))
      \<and> tasks' = start_task tasks i"
  proof (cases "executable tasks = []")
    case True
    show ?thesis
    proof (cases "retryable tasks = []")
      case True
      with \<open>executable tasks = []\<close> assms show ?thesis by (simp add: get_next_task_def)
    next
      case False
      with \<open>executable tasks = []\<close> assms show ?thesis
        by (auto simp: get_next_task_def Let_def)
    qed
  next
    case False
    with assms show ?thesis by (auto simp: get_next_task_def Let_def)
  qed
  then have "eligible tasks PENDING i \<or> eligible tasks FAILED i"
    using chosen_is_best(1) [OF _ executable_sorted executable_iff]
          chosen_is_best(1) [OF _ retryable_sorted retryable_iff] by blast
  then show "i < length tasks" and "attempts (tasks ! i) < max_attempts (tasks ! i)"
    by (auto simp: eligible_def)
  show "tasks' = start_task tasks i"
    using both by simp
qed

lemma get_next_task_None:
  "get_next_task tasks = (None, tasks') \<Longrightarrow> tasks' = tasks"
  by (cases "executable tasks = []"; cases "retryable tasks = []")
     (simp_all add: get_next_task_def Let_def)

lemma start_task_length: "length (start_task tasks j) = length tasks"
  by (simp add: start_task_def)

lemma start_task_max_attempts:
  "max_attempts (start_task tasks j ! k) = max_attempts (tasks ! k)"
proof (cases "j < length tasks")
  case True
  then show ?thesis by (cases "k = j") (simp_all add: start_task_def)
next
  case False
  then have "length tasks \<le> j" by simp
  then show ?thesis by (simp add: start_task_def list_update_beyond)
qed

lemma start_task_attempts_other:
  "k \<noteq> j \<Longrightarrow> attempts (start_task tasks j ! k) = attempts (tasks ! k)"
  by (simp add: start_task_def)

lemma start_task_attempts_same:
  "j < length tasks \<Longrightarrow> attempts (start_task tasks j ! j) = attempts (tasks ! j) + 1"
  by (simp add: start_task_def)

lemmas start_task_frame =
  start_task_length start_task_max_attempts start_task_attempts_other start_task_attempts_same

lemma set_status_length: "length (set_status tasks tid st res) = length tasks"
  by (induction tasks) simp_all

lemma set_status_attempts:
  "attempts (set_status tasks tid st res ! k) = attempts (tasks ! k)
   \<and> max_attempts (set_status tasks tid st res ! k) = max_attempts (tasks ! k)"
proof (induction tasks arbitrary: k)
  case Nil
  then show ?case by simp
next
  case (Cons t ts)
  show ?case
  proof (cases k)
    case 0
    then show ?thesis by (cases res) simp_all
  next
    case (Suc n)
    then show ?thesis using Cons.IH [of n] by simp
  qed
qed

lemmas set_status_frame = set_status_length set_status_attempts

lemma update_status_frame:
  "length (snd (update_status tasks tid st res)) = length tasks"
  "attempts (snd (update_status tasks tid st res) ! k) = attempts (tasks ! k)"
  "max_attempts (snd (update_status tasks tid st res) ! k) = max_attempts (tasks ! k)"
  by (cases "get_task_by_id tasks tid"; simp add: update_status_def set_status_frame)+

lemma returned_at_most_budget:
  "i < length tasks \<Longrightarrow> attempts (tasks ! i) \<le> max_attempts (tasks ! i) \<Longrightarrow>
   int (count_list (fst (run_calls tasks calls)) i)
     \<le> max_attempts (tasks ! i) - attempts (tasks ! i)"
proof (induction calls arbitrary: tasks)
  case Nil
  then show ?case by simp
next
  case (Cons c calls)
  show ?case
  proof (cases c)
    case GetNextTask
    obtain r tasks' where res: "get_next_task tasks = (r, tasks')"
      by (cases "get_next_task tasks")
    show ?thesis
    proof (cases r)
      case None
      then have "tasks' = tasks" using res get_next_task_None by simp
      then show ?thesis using GetNextTask res None Cons by simp
    next
      case (Some p)
      obtain j task where p: "p = (j, task)" by (cases p)
      note sel = get_next_task_Some [OF res [unfolded Some p]]
      obtain returned final where rc: "run_calls tasks' calls = (returned, final)"
        by (cases "run_calls tasks' calls")
      have run: "fst (run_calls tasks (c # calls)) = j # returned"
        using GetNextTask res Some p rc by simp
      have len: "i < length tasks'" using sel(3) Cons.prems(1) by (simp add: start_task_frame)
      have mx: "max_attempts (tasks' ! i) = max_attempts (tasks ! i)"
        using sel(3) by (simp add: start_task_frame)
      show ?thesis
      proof (cases "j = i")
        case True
        have at: "attempts (tasks' ! i) = attempts (tasks ! i) + 1"
          using sel(1,3) True by (simp add: start_task_frame)
        have "attempts (tasks' ! i) \<le> max_attempts (tasks' ! i)"
          using at mx sel(2) True by simp
        from Cons.IH [OF len this] have
          "int (count_list returned i) \<le> max_attempts (tasks ! i) - (attempts (tasks ! i) + 1)"
          using rc at mx by simp
        then show ?thesis using run True by simp
      next
        case False
        have at: "attempts (tasks' ! i) = attempts (tasks ! i)"
          using sel(3) False by (simp add: start_task_frame)
        have "attempts (tasks' ! i) \<le> max_attempts (tasks' ! i)"
          using at mx Cons.prems(2) by simp
        from Cons.IH [OF len this] have
          "int (count_list returned i) \<le> max_attempts (tasks ! i) - attempts (tasks ! i)"
          using rc at mx by simp
        then show ?thesis using run False by simp
      qed
    qed
  next
    case (UpdateStatus tid st res)
    let ?tasks' = "snd (update_status tasks tid st res)"
    have len: "i < length ?tasks'" using Cons.prems(1) by (simp add: update_status_frame)
    have "attempts (?tasks' ! i) \<le> max_attempts (?tasks' ! i)"
      using Cons.prems(2) by (simp add: update_status_frame)
    from Cons.IH [OF len this] show ?thesis
      using UpdateStatus by (simp add: update_status_frame)
  qed
qed

text \<open>
  Claim C5. Take a task with \<open>max_attempts = 3\<close>, and any later sequence of
  \<open>get_next_task\<close> and \<open>update_status\<close> calls (with any ids and statuses, so
  however often the task is marked failed again). If the task has used its three
  attempts and is failed, no \<open>get_next_task\<close> call returns it. If it starts with no
  attempt used, it is returned at most three times.
\<close>

theorem retry_budget:
  "i < length tasks \<and> max_attempts (tasks ! i) = 3 \<longrightarrow>
     (attempts (tasks ! i) = 3 \<and> status (tasks ! i) = FAILED \<longrightarrow>
        i \<notin> set (fst (run_calls tasks calls)))
   \<and> (attempts (tasks ! i) = 0 \<longrightarrow> count_list (fst (run_calls tasks calls)) i \<le> 3)"
proof (intro impI conjI)
  assume a: "i < length tasks \<and> max_attempts (tasks ! i) = 3"
  { assume b: "attempts (tasks ! i) = 3 \<and> status (tasks ! i) = FAILED"
    have "int (count_list (fst (run_calls tasks calls)) i) \<le> 0"
      using returned_at_most_budget [of i tasks calls] a b by simp
    then show "i \<notin> set (fst (run_calls tasks calls))"
      by (simp add: count_list_0_iff) }
  { assume b: "attempts (tasks ! i) = 0"
    have "int (count_list (fst (run_calls tasks calls)) i) \<le> 3"
      using returned_at_most_budget [of i tasks calls] a b by simp
    then show "count_list (fst (run_calls tasks calls)) i \<le> 3" by simp }
qed

theorem retry_budget_witness:
  "0 < length exhausted_task \<and> max_attempts (exhausted_task ! 0) = 3
   \<and> attempts (exhausted_task ! 0) = 3 \<and> status (exhausted_task ! 0) = FAILED
   \<and> 0 \<notin> set (fst (run_calls exhausted_task retry_calls))
   \<and> 0 < length fresh_task \<and> max_attempts (fresh_task ! 0) = 3
   \<and> attempts (fresh_task ! 0) = 0
   \<and> fst (run_calls fresh_task retry_calls) = [0, 0, 0]
   \<and> count_list (fst (run_calls fresh_task retry_calls)) 0 \<le> 3"
proof -
  have a: "0 < length exhausted_task \<and> max_attempts (exhausted_task ! 0) = 3"
    and b: "attempts (exhausted_task ! 0) = 3 \<and> status (exhausted_task ! 0) = FAILED"
    by (simp_all add: exhausted_task_def)
  have c: "0 < length fresh_task \<and> max_attempts (fresh_task ! 0) = 3"
    and d: "attempts (fresh_task ! 0) = 0"
    by (simp_all add: fresh_task_def)
  have e: "fst (run_calls fresh_task retry_calls) = [0, 0, 0]"
    by code_simp
  from retry_budget [of 0 exhausted_task retry_calls] a b
  have f: "0 \<notin> set (fst (run_calls exhausted_task retry_calls))" by blast
  from retry_budget [of 0 fresh_task retry_calls] c d
  have g: "count_list (fst (run_calls fresh_task retry_calls)) 0 \<le> 3" by blast
  from a b c d e f g show ?thesis by blast
qed

section \<open>Task Scheduler: the fallback of decompose\<close>

lemma typed_fallback:
  "typed_subtask (fallback_task goal)
     = Some \<lparr>task_id = ''task_1'', description = goal, priority = 1, dependencies = [],
             status = PENDING, result = None, attempts = 0, max_attempts = 3\<rparr>"
  by (simp add: typed_subtask_def fallback_task_def new_subtask_def)

lemma decompose_unparsable:
  assumes "llm goal = Inr (Some c)" and "json_loads c = None"
  shows "decompose llm json_loads goal = (Inr [fallback_task goal], [fallback_task goal])"
  using assms by (simp add: decompose_def decompose_try_def)

text \<open>
  Claim C3. The fallback to a single task wrapping the goal is taken only when the
  content cannot be decoded. A completion that decodes but is malformed makes
  \<open>decompose\<close> raise to its caller instead: with a second subtask that lacks
  \<open>priority\<close> it raises KeyError and leaves the first subtask in the task list, and
  with a JSON list in place of the object it raises AttributeError. For a content that
  cannot be decoded, and for an object without subtasks, it returns as the claim says.
\<close>

theorem decompose_malformed_raises:
  "decompose (llm_content ''second subtask without priority'') loads_example ''plan a trip''
     = (Inl KeyError, [new_subtask (JStr ''task_1'') (JStr ''survey'') (JInt 1) (JArr [])])
   \<and> decompose (llm_content ''a list'') loads_example ''plan a trip'' = (Inl AttributeError, [])
   \<and> decompose (llm_content ''not json'') loads_example ''plan a trip''
       = (Inr [fallback_task ''plan a trip''], [fallback_task ''plan a trip''])
   \<and> decompose (llm_content ''an empty object'') loads_example ''plan a trip'' = (Inr [], [])"
proof -
  have a: "decompose (llm_content ''second subtask without priority'') loads_example
      ''plan a trip''
     = (Inl KeyError, [new_subtask (JStr ''task_1'') (JStr ''survey'') (JInt 1) (JArr [])])"
    by (simp add: decompose_def decompose_try_def llm_content_def loads_example_def
        get_or_def subtask_of_def)
  have b: "decompose (llm_content ''a list'') loads_example ''plan a trip''
      = (Inl AttributeError, [])"
    by (simp add: decompose_def decompose_try_def llm_content_def loads_example_def)
  have c: "decompose (llm_content ''not json'') loads_example ''plan a trip''
       = (Inr [fallback_task ''plan a trip''], [fallback_task ''plan a trip''])"
    by (rule decompose_unparsable [of _ _ "''not json''"])
       (simp_all add: llm_content_def loads_example_def)
  have d: "decompose (llm_content ''an empty object'') loads_example ''plan a trip''
      = (Inr [], [])"
    by (simp add: decompose_def decompose_try_def llm_content_def loads_example_def get_or_def)
  from a b c d show ?thesis by blast
qed

section \<open>Retrieval Merger: duplicates and empty content\<close>

lemma str_in_sublist: "str_in a b \<longleftrightarrow> sublist a b"
  by (induction b) (simp_all add: sublist_Cons_right)

lemma str_in_refl: "str_in a a"
  by (simp add: str_in_sublist)

lemma is_duplicate_iff:
  "is_duplicate c seen_contents \<longleftrightarrow> (\<exists>seen\<in>set seen_contents. duplicate_texts c seen)"
proof (induction seen_contents)
  case Nil
  then show ?case by simp
next
  case (Cons s rest)
  have "duplicate_texts c s \<longleftrightarrow>
     (str_in c s \<or> str_in s c) \<and> (length c > 50 \<and> length s > 50 \<longrightarrow> c = s)"
    using str_in_refl [of c] by (auto simp: duplicate_texts_def)
  then show ?case using Cons.IH by auto
qed

lemma remove_duplicates_pair:
  assumes "content a \<noteq> []" and "content b \<noteq> []"
  shows "remove_duplicates [a, b] =
           (if duplicate_texts (content b) (content a) then [a] else [a, b])"
  using assms by (simp add: remove_duplicates_def is_duplicate_iff)

text \<open>
  Claim C7. In the duplicate removal an item is dropped as a duplicate exactly when
  its text is a duplicate of the text of an item kept before it, where two texts that
  are both longer than 50 characters are duplicates only if they are equal, and two
  texts of which at least one has 50 characters or fewer are duplicates as soon as one
  occurs in the other. For a list of two items with text, the second is dropped
  exactly when the two texts are duplicates in this sense.
\<close>

theorem duplicate_rule:
  "(is_duplicate c seen_contents \<longleftrightarrow> (\<exists>seen\<in>set seen_contents. duplicate_texts c seen))
   \<and> (length c > 50 \<and> length seen > 50 \<longrightarrow> (duplicate_texts c seen \<longleftrightarrow> c = seen))
   \<and> (\<not> (length c > 50 \<and> length seen > 50) \<longrightarrow>
        (duplicate_texts c seen \<longleftrightarrow> sublist c seen \<or> sublist seen c))
   \<and> (content a \<noteq> [] \<and> content b \<noteq> [] \<longrightarrow>
        remove_duplicates [a, b] =
          (if duplicate_texts (content b) (content a) then [a] else [a, b]))"
  using is_duplicate_iff [of c seen_contents] remove_duplicates_pair [of a b]
  by (simp add: duplicate_texts_def str_in_sublist)

theorem duplicate_rule_witness:
  "length long_text > 50 \<and> length longer_text > 50
   \<and> sublist long_text longer_text
   \<and> \<not> duplicate_texts long_text longer_text
   \<and> \<not> is_duplicate long_text [longer_text]
   \<and> \<not> (length ''ev'' > 50 \<and> length ''ev battery'' > 50)
   \<and> duplicate_texts ''ev'' ''ev battery''
   \<and> remove_duplicates [from_web [] (web_hit ''ev battery''), from_web [] (web_hit ''ev'')]
       = [from_web [] (web_hit ''ev battery'')]"
proof -
  let ?a = "from_web [] (web_hit ''ev battery'')" and ?b = "from_web [] (web_hit ''ev'')"
  have len: "length long_text > 50 \<and> length longer_text > 50"
    by (simp add: long_text_def longer_text_def)
  have "str_in long_text longer_text" by code_simp
  then have sub: "sublist long_text longer_text" by (simp add: str_in_sublist)
  have ne: "long_text \<noteq> longer_text"
  proof
    assume "long_text = longer_text"
    then have "length long_text = length longer_text" by simp
    then show False by (simp add: long_text_def longer_text_def)
  qed
  from duplicate_rule [of long_text "[longer_text]" longer_text ?a ?b] len ne
  have nd: "\<not> duplicate_texts long_text longer_text"
    and ni: "\<not> is_duplicate long_text [longer_text]" by simp_all
  have few: "\<not> (length ''ev'' > 50 \<and> length ''ev battery'' > 50)" by simp
  have "str_in ''ev'' ''ev battery''" by code_simp
  then have sub2: "sublist ''ev'' ''ev battery''" by (simp add: str_in_sublist)
  have filled: "content ?a \<noteq> [] \<and> content ?b \<noteq> []"
    by (simp add: from_web_def web_hit_def get_or_def)
  have ca: "content ?a = ''ev battery''" and cb: "content ?b = ''ev''"
    by (simp_all add: from_web_def web_hit_def get_or_def)
  from duplicate_rule [of "''ev''" "[]" "''ev battery''" ?a ?b] few sub2
  have d: "duplicate_texts ''ev'' ''ev battery''"
    and "content ?a \<noteq> [] \<and> content ?b \<noteq> [] \<longrightarrow>
        remove_duplicates [?a, ?b] =
          (if duplicate_texts (content ?b) (content ?a) then [?a] else [?a, ?b])"
    by blast+
  then have "remove_duplicates [?a, ?b] = [?a]"
    using filled ca cb by simp
  with len sub nd ni few d show ?thesis by blast
qed

lemma unique_loop_nonempty:
  "\<forall>x\<in>set unique_results. content x \<noteq> [] \<Longrightarrow>
   \<forall>x\<in>set (unique_loop results unique_results seen_contents). content x \<noteq> []"
proof (induction results arbitrary: unique_results seen_contents)
  case Nil
  then show ?case by simp
next
  case (Cons r results)
  show ?case
  proof (cases "content r = [] \<or> is_duplicate (content r) seen_contents")
    case True
    then have "unique_loop (r # results) unique_results seen_contents
        = unique_loop results unique_results seen_contents" by auto
    then show ?thesis using Cons.IH [OF Cons.prems] by simp
  next
    case False
    then have eq: "unique_loop (r # results) unique_results seen_contents
        = unique_loop results (unique_results @ [r]) (seen_contents @ [content r])" by simp
    have "\<forall>x\<in>set (unique_results @ [r]). content x \<noteq> []"
      using Cons.prems False by simp
    from Cons.IH [OF this] show ?thesis using eq by simp
  qed
qed

lemma unique_loop_length:
  "length (unique_loop results unique_results seen_contents)
     + length (filter (\<lambda>r. content r = []) results)
   \<le> length unique_results + length results"
proof (induction results arbitrary: unique_results seen_contents)
  case Nil
  then show ?case by simp
next
  case (Cons r results)
  show ?case
  proof (cases "content r = []")
    case True
    then show ?thesis using Cons.IH [of unique_results seen_contents] by simp
  next
    case False
    show ?thesis
    proof (cases "is_duplicate (content r) seen_contents")
      case True
      then show ?thesis using False Cons.IH [of unique_results seen_contents] by simp
    next
      case dup: False
      then show ?thesis
        using False Cons.IH [of "unique_results @ [r]" "seen_contents @ [content r]"]
        by simp
    qed
  qed
qed

lemma remove_duplicates_nonempty:
  "\<forall>x\<in>set (remove_duplicates results). content x \<noteq> []"
  using unique_loop_nonempty [of "[]" results "[]"] by (simp add: remove_duplicates_def)

lemma remove_duplicates_length:
  "length (remove_duplicates results) + length (filter (\<lambda>r. content r = []) results)
   \<le> length results"
  using unique_loop_length [of results "[]" "[]"] by (simp add: remove_duplicates_def)

lemma merge_results_alt:
  "merge_results clock m w =
     sort_key (\<lambda>item. - merge_sort_key item) (remove_duplicates (merged_inputs clock m w))"
  by (simp add: merge_results_def merged_inputs_def Let_def)

lemma empty_inputs_count:
  "length (filter (\<lambda>r. content r = []) (merged_inputs clock m w))
   = length (filter (\<lambda>r. get_or (r_text r) [] = []) m)
     + length (filter (\<lambda>r. get_or (w_content r) [] = []) w)"
proof -
  have a: "filter (\<lambda>r. content r = []) (map from_memory m)
      = map from_memory (filter (\<lambda>r. get_or (r_text r) [] = []) m)"
    by (induction m) (simp_all add: from_memory_def)
  have b: "length (filter (\<lambda>r. content r = [])
             (map (\<lambda>(k, r). from_web (clock k) r) (enumerate n w)))
      = length (filter (\<lambda>r. get_or (w_content r) [] = []) w)" for n
    by (induction w arbitrary: n) (simp_all add: from_web_def)
  show ?thesis using b [of 0] by (simp add: merged_inputs_def a)
qed

text \<open>
  Claim C10. No item of \<open>merged_results\<close> has empty content: a memory result whose
  text, or a web result whose content, is empty or absent is dropped. So the merged
  list is shorter than the two inputs together by at least the number of such results,
  duplicates or not: merging one memory result without text and one web result with
  content gives one item.
\<close>

theorem merge_drops_empty:
  "(\<forall>x\<in>set (merge_results clock m w). content x \<noteq> [])
   \<and> length (merge_results clock m w)
       + length (filter (\<lambda>r. get_or (r_text r) [] = []) m)
       + length (filter (\<lambda>r. get_or (w_content r) [] = []) w)
     \<le> length m + length w
   \<and> length (merge_results (\<lambda>k. []) [empty_memory_hit] [some_web_hit]) = 1"
proof -
  have "(\<forall>x\<in>set (merge_results clock m w). content x \<noteq> [])"
    using remove_duplicates_nonempty by (simp add: merge_results_alt)
  moreover have "length (merge_results clock m w)
       + length (filter (\<lambda>r. get_or (r_text r) [] = []) m)
       + length (filter (\<lambda>r. get_or (w_content r) [] = []) w)
     \<le> length m + length w"
  proof -
    have len: "length (merged_inputs clock m w) = length m + length w"
      by (simp add: merged_inputs_def)
    have "length (merge_results clock m w)
        = length (remove_duplicates (merged_inputs clock m w))"
      by (simp add: merge_results_alt)
    then show ?thesis
      using remove_duplicates_length [of "merged_inputs clock m w"]
      unfolding empty_inputs_count len by linarith
  qed
  moreover have "length (merge_results (\<lambda>k. []) [empty_memory_hit] [some_web_hit]) = 1"
    by (simp add: merge_results_def remove_duplicates_def empty_memory_hit_def
        some_web_hit_def from_memory_def from_web_def get_or_def)
  ultimately show ?thesis by blast
qed

theorem merge_drops_empty_witness:
  "merge_results (\<lambda>k. []) [empty_memory_hit] [some_web_hit] = [from_web [] some_web_hit]
   \<and> content (from_web [] some_web_hit) \<noteq> []
   \<and> length (merge_results (\<lambda>k. []) [empty_memory_hit] [some_web_hit]) < 2"
proof -
  have m: "merge_results (\<lambda>k. []) [empty_memory_hit] [some_web_hit]
      = [from_web [] some_web_hit]"
    by (simp add: merge_results_def remove_duplicates_def empty_memory_hit_def
        from_memory_def get_or_def from_web_def some_web_hit_def)
  from merge_drops_empty [of "\<lambda>k. []" "[empty_memory_hit]" "[some_web_hit]"]
  have "\<forall>x\<in>set (merge_results (\<lambda>k. []) [empty_memory_hit] [some_web_hit]).
          content x \<noteq> []"
    and "length (merge_results (\<lambda>k. []) [empty_memory_hit] [some_web_hit]) = 1"
    by blast+
  then show ?thesis using m by simp
qed

section \<open>Quality Critic: scores, overall score and pass\<close>



lemma f_ge_threshold:
  "f_ge x PASS_THRESHOLD \<longleftrightarrow> x = PosInf \<or> (\<exists>v. x = Finite v \<and> 7 \<le> v)"
  by (cases x) (auto simp: f_ge_def PASS_THRESHOLD_def)

lemma py_float_supplied:
  "py_float ops v =
     (case supplied ops (Some v) of
        Some x \<Rightarrow> Inr x
      | None \<Rightarrow> (case v of JInt i \<Rightarrow> Inl OverflowError
                 | JStr s \<Rightarrow> Inl ValueError
                 | _ \<Rightarrow> Inl TypeError))"
  by (cases v) (auto split: option.splits)





lemma evaluate_report_topic:
  "evaluate_report ops str_of llm topic rep = evaluate_report ops str_of llm DEFAULT_TOPIC rep"
  by (simp add: evaluate_report_def)

lemma critic_execute_alt:
  "critic_execute ops str_of llm inp =
     (if topic_is_text inp then
        (case evaluate_report ops str_of llm DEFAULT_TOPIC (report_str str_of inp) of
           Inl e \<Rightarrow> Inl e
         | Inr ev \<Rightarrow> Inr \<lparr>scores = e_scores ev, overall_score = e_overall_score ev,
                           feedback = e_feedback ev,
                           passed = f_ge (e_overall_score ev) PASS_THRESHOLD\<rparr>)
      else Inl AttributeError)"
proof (cases "in_topic inp")
  case None
  then show ?thesis
    by (simp add: critic_execute_def topic_is_text_def get_or_def Let_def split: sum.splits)
next
  case (Some v)
  show ?thesis
  proof (cases v)
    case (JStr t)
    have "evaluate_report ops str_of llm (if strip t = [] then DEFAULT_TOPIC else strip t)
            (report_str str_of inp)
        = evaluate_report ops str_of llm DEFAULT_TOPIC (report_str str_of inp)"
      by (rule evaluate_report_topic)
    then show ?thesis using Some JStr
      by (simp add: critic_execute_def topic_is_text_def get_or_def Let_def split: sum.splits)
  qed (use Some in \<open>simp_all add: critic_execute_def topic_is_text_def get_or_def\<close>)
qed

lemma default_review_alt:
  "\<lparr>scores = e_scores default_evaluation_result,
    overall_score = e_overall_score default_evaluation_result,
    feedback = e_feedback default_evaluation_result,
    passed = f_ge (e_overall_score default_evaluation_result) PASS_THRESHOLD\<rparr> = default_review"
  by (simp add: default_review_def default_evaluation_result_def DEFAULT_SCORE_def
      f_ge_threshold)











section \<open>Pipeline Coordinator: the revision loop\<close>

lemma revision_loop_never_passing:
  assumes w: "\<And>n input. \<exists>d. writer ags n input = Inr d"
    and c: "\<And>n input. \<exists>rv. critic ags n input = Inr rv \<and> \<not> passed rv"
  shows "revision_count (revision_loop ags topic analysis rd rounds s)
           = revision_count s + length rounds
       \<and> write_calls (revision_loop ags topic analysis rd rounds s)
           = write_calls s + length rounds"
proof (induction rounds arbitrary: s)
  case Nil
  then show ?case by simp
next
  case (Cons round_num rounds)
  let ?given = "case ls_feedback s of None \<Rightarrow> False | Some f \<Rightarrow> f \<noteq> []"
  let ?input = "\<lparr>wi_topic = topic, wi_analysis = analysis,
      wi_sources = get_or (source_urls rd) [],
      wi_feedback = (if ?given then ls_feedback s else None),
      wi_report = (if ?given then Some (previous_report s) else None)\<rparr>"
  from w obtain d where d: "writer ags round_num ?input = Inr d" by blast
  from c obtain rv where rv: "critic ags round_num \<lparr>ci_topic = topic, ci_report = d_report d\<rparr> = Inr rv"
    and np: "\<not> passed rv" by blast
  let ?s' = "s\<lparr>ls_draft := d, write_calls := write_calls s + 1, ls_review := rv,
      revision_count := revision_count s + 1, ls_feedback := Some (feedback rv),
      previous_report := d_report d\<rparr>"
  have step: "revision_loop ags topic analysis rd (round_num # rounds) s
      = revision_loop ags topic analysis rd rounds ?s'"
    using d rv np by (simp add: Let_def)
  show ?case unfolding step using Cons.IH [of ?s'] by simp
qed

text \<open>
  Claim C1. With \<open>max_revision_rounds = 2\<close>, a Writer that never raises and a Critic
  whose review never passes, \<open>run\<close> calls the Writer three times, as the claim says,
  but the \<open>revision_count\<close> it returns is 3, not 2: the counter goes up after every
  failed review, also after the last one, which no rewrite follows.
\<close>

theorem run_revision_count_never_passing:
  assumes "\<And>n input. \<exists>d. writer ags n input = Inr d"
    and "\<And>n input. \<exists>rv. critic ags n input = Inr rv \<and> \<not> passed rv"
  shows "rr_revision_count (fst (run ags 2 topic)) = 3 \<and> snd (run ags 2 topic) = 3"
  using revision_loop_never_passing [OF assms]
  by (simp add: run_def Let_def initial_state_def)

theorem run_revision_count_never_passing_witness:
  "rr_revision_count (fst (run failing_critic_agents 2 ''ev batteries'')) = 3
   \<and> snd (run failing_critic_agents 2 ''ev batteries'') = 3
   \<and> critic_execute exact_ops no_str (\<lambda>r. JObj [])
         \<lparr>in_topic = Some (JStr ''ev batteries''), in_report = Some (JStr ''draft'')\<rparr>
       = Inr default_review
   \<and> \<not> passed default_review"
proof -
  have w: "\<And>n input. \<exists>d. writer failing_critic_agents n input = Inr d"
    by (simp add: failing_critic_agents_def)
  have dr: "critic_execute exact_ops no_str (\<lambda>r. JObj [])
        \<lparr>in_topic = Some (JStr t), in_report = Some (JStr r)\<rparr> = Inr default_review"
    for t r
    by (simp add: critic_execute_alt topic_is_text_def evaluate_report_def default_review_alt)
  have np: "\<not> passed default_review" by (simp add: default_review_def)
  have c: "\<And>n input. \<exists>rv. critic failing_critic_agents n input = Inr rv \<and> \<not> passed rv"
    using dr np by (simp add: failing_critic_agents_def)
  from run_revision_count_never_passing [of failing_critic_agents, OF w c] dr np
  show ?thesis by simp
qed

section \<open>Memory Store: the duplicate check\<close>

lemma search_memory_collection:
  "collection (snd (search_memory eng api mm query top_k f)) = collection mm"
proof (cases "query = [] \<or> strip query = []")
  case True
  then show ?thesis by (auto simp: search_memory_def)
next
  case False
  obtain r g where c: "create_embedding api (embedding_generator mm) (strip query) = (r, g)"
    by (cases "create_embedding api (embedding_generator mm) (strip query)")
  show ?thesis
  proof (cases r)
    case (Inl e)
    then show ?thesis using False c by (simp add: search_memory_def)
  next
    case (Inr q)
    then show ?thesis using False c
      by (cases "eng_query eng (collection mm) q top_k f") (simp_all add: search_memory_def)
  qed
qed

lemma check_duplicate_try_cases:
  "check_duplicate_try eng api mm txt th =
     (if txt = [] \<or> strip txt = [] then (Inr None, mm)
      else (case fst (search_memory eng api mm txt 1 None) of
              Inl e \<Rightarrow> Inl e
            | Inr [] \<Rightarrow> Inr None
            | Inr (h # rest) \<Rightarrow> if hit_similarity h \<ge> th then Inr (Some h) else Inr None,
            snd (search_memory eng api mm txt 1 None)))"
proof (cases "search_memory eng api mm txt 1 None")
  case (Pair r mm')
  show ?thesis
  proof (cases r)
    case (Inl e)
    then show ?thesis using Pair by (simp add: check_duplicate_try_def)
  next
    case (Inr hits)
    then show ?thesis using Pair by (cases hits) (simp_all add: check_duplicate_try_def)
  qed
qed

lemma check_duplicate_cases:
  "check_duplicate eng api mm txt th =
     (if txt = [] \<or> strip txt = [] then (Inr None, mm)
      else (case fst (search_memory eng api mm txt 1 None) of
              Inl e \<Rightarrow> Inr None
            | Inr [] \<Rightarrow> Inr None
            | Inr (h # rest) \<Rightarrow> if hit_similarity h \<ge> th then Inr (Some h) else Inr None,
            snd (search_memory eng api mm txt 1 None)))"
proof (cases "txt = [] \<or> strip txt = []")
  case True
  then show ?thesis by (simp add: check_duplicate_def check_duplicate_try_cases)
next
  case False
  show ?thesis
  proof (cases "fst (search_memory eng api mm txt 1 None)")
    case (Inl e)
    then show ?thesis using False by (simp add: check_duplicate_def check_duplicate_try_cases)
  next
    case (Inr hits)
    then show ?thesis using False
      by (cases hits) (simp_all add: check_duplicate_def check_duplicate_try_cases)
  qed
qed

lemma check_duplicate_returns:
  "\<exists>r. fst (check_duplicate eng api mm txt th) = Inr r"
proof (cases "check_duplicate_try eng api mm txt th")
  case (Pair r mm')
  then show ?thesis by (cases r) (simp_all add: check_duplicate_def)
qed

lemma check_duplicate_collection:
  "collection (snd (check_duplicate eng api mm txt th)) = collection mm"
  by (simp add: check_duplicate_cases search_memory_collection)

lemma check_duplicate_Some_iff:
  "fst (check_duplicate eng api mm txt th) = Inr (Some hit) \<longleftrightarrow>
     txt \<noteq> [] \<and> strip txt \<noteq> []
     \<and> (\<exists>rest. fst (search_memory eng api mm txt 1 None) = Inr (hit # rest))
     \<and> hit_similarity hit \<ge> th"
proof (cases "txt = [] \<or> strip txt = []")
  case True
  then show ?thesis by (auto simp: check_duplicate_cases)
next
  case False
  show ?thesis
  proof (cases "fst (search_memory eng api mm txt 1 None)")
    case (Inl e)
    then show ?thesis using False by (simp add: check_duplicate_cases)
  next
    case (Inr hits)
    then show ?thesis using False by (cases hits) (auto simp: check_duplicate_cases)
  qed
qed

lemma add_to_memory_check_not_to_blame:
  assumes "fst (add_to_memory eng api uuid now mm txt md did True) = Inl e"
  shows "fst (add_to_memory eng api uuid now
           (snd (check_duplicate eng api mm (strip txt) (95 / 100))) txt md did False) = Inl e"
proof (cases "txt = [] \<or> strip txt = []")
  case True
  then show ?thesis using assms by (auto simp: add_to_memory_def)
next
  case False
  obtain r mm1 where chk: "check_duplicate eng api mm (strip txt) (95 / 100) = (r, mm1)"
    by (cases "check_duplicate eng api mm (strip txt) (95 / 100)")
  from check_duplicate_returns [of eng api mm "strip txt" "95 / 100"] chk
  obtain x where r: "r = Inr x" by auto
  show ?thesis
  proof (cases x)
    case None
    then show ?thesis using assms False chk r by (simp add: add_to_memory_def Let_def)
  next
    case (Some h)
    then show ?thesis using assms False chk r by (simp add: add_to_memory_def Let_def)
  qed
qed

text \<open>
  Claim C9. \<open>check_duplicate\<close> always returns, never raises: for an empty or
  whitespace-only text it returns nothing and changes nothing, and when the similarity
  search raises it returns nothing. So when \<open>add_to_memory\<close> with duplicate checking
  fails, the check is not the cause: the same call without the check, made in the state
  the check leaves, fails with the same exception.
\<close>

theorem check_duplicate_never_raises:
  "(\<exists>r. fst (check_duplicate eng api mm txt th) = Inr r)
   \<and> (txt = [] \<or> strip txt = [] \<longrightarrow> check_duplicate eng api mm txt th = (Inr None, mm))
   \<and> (fst (search_memory eng api mm txt 1 None) = Inl e \<longrightarrow>
        fst (check_duplicate eng api mm txt th) = Inr None)
   \<and> (fst (add_to_memory eng api uuid now mm txt md did True) = Inl e' \<longrightarrow>
        fst (add_to_memory eng api uuid now
               (snd (check_duplicate eng api mm (strip txt) (95 / 100))) txt md did False)
          = Inl e')"
proof -
  have "fst (search_memory eng api mm txt 1 None) = Inl e \<Longrightarrow>
      fst (check_duplicate eng api mm txt th) = Inr None"
    by (simp add: check_duplicate_cases)
  moreover have "txt = [] \<or> strip txt = [] \<Longrightarrow>
      check_duplicate eng api mm txt th = (Inr None, mm)"
    by (simp add: check_duplicate_cases)
  ultimately show ?thesis
    using check_duplicate_returns [of eng api mm "txt" th]
      add_to_memory_check_not_to_blame [of eng api uuid now mm "txt" md did e']
    by blast
qed

lemma strip_ev: "strip ''ev'' = ''ev''"
  by code_simp

lemma strip_blank: "strip ''  '' = []"
  by code_simp

lemma call_api_seven:
  "call_api_with_retry api_seven t g = (Inr 7, g\<lparr>api_call_count := api_call_count g + 1\<rparr>)"
  by (simp add: call_api_with_retry_def upt_rec api_seven_def)

lemma create_embedding_seven_new:
  "create_embedding api_seven new_generator ''ev''
     = (Inr 7, new_generator\<lparr>total_requests := 1, api_call_count := 1,
          cache := [''ev'' \<mapsto> 7], embedding_count := 1\<rparr>)"
  by (simp add: create_embedding_def strip_ev call_api_seven Let_def new_generator_def)

lemma search_broken:
  "fst (search_memory broken_engine api_seven empty_store ''ev'' 1 None) = Inl Exception"
  by (simp add: search_memory_def strip_ev empty_store_def create_embedding_seven_new
      broken_engine_def reraise_def)

theorem check_duplicate_never_raises_witness:
  "fst (search_memory broken_engine api_seven empty_store ''ev'' 1 None) = Inl Exception
   \<and> fst (check_duplicate broken_engine api_seven empty_store ''ev'' (95 / 100)) = Inr None
   \<and> strip ''  '' = []
   \<and> check_duplicate broken_engine api_seven empty_store ''  '' (95 / 100)
       = (Inr None, empty_store)
   \<and> fst (add_to_memory broken_engine api_seven ''id-1'' ''now'' empty_store ''ev'' None None
            True) = Inl Exception
   \<and> fst (add_to_memory broken_engine api_seven ''id-1'' ''now''
            (snd (check_duplicate broken_engine api_seven empty_store (strip ''ev'') (95 / 100)))
            ''ev'' None None False) = Inl Exception"
proof -
  note inst = check_duplicate_never_raises [where eng = broken_engine and api = api_seven
      and mm = empty_store and th = "95 / 100" and uuid = "''id-1''" and now = "''now''"
      and md = None and did = None and e = Exception and e' = Exception]
  have a: "fst (search_memory broken_engine api_seven empty_store ''ev'' 1 None) = Inl Exception"
    by (rule search_broken)
  from inst [where ?txt = "''ev''"] a
  have b: "fst (check_duplicate broken_engine api_seven empty_store ''ev'' (95 / 100)) = Inr None"
    by blast
  from inst [where ?txt = "''  ''"] strip_blank
  have c: "check_duplicate broken_engine api_seven empty_store ''  '' (95 / 100)
      = (Inr None, empty_store)" by blast
  have cd_state: "check_duplicate broken_engine api_seven empty_store ''ev'' (95 / 100)
      = (Inr None, snd (search_memory broken_engine api_seven empty_store ''ev'' 1 None))"
    using a by (simp add: check_duplicate_cases strip_ev)
  have sm: "snd (search_memory broken_engine api_seven empty_store ''ev'' 1 None)
      = empty_store\<lparr>embedding_generator := new_generator\<lparr>total_requests := 1,
          api_call_count := 1, cache := [''ev'' \<mapsto> 7], embedding_count := 1\<rparr>\<rparr>"
    by (simp add: search_memory_def strip_ev empty_store_def create_embedding_seven_new
        broken_engine_def)
  have d: "fst (add_to_memory broken_engine api_seven ''id-1'' ''now'' empty_store ''ev'' None
      None True) = Inl Exception"
    unfolding add_to_memory_def strip_ev Let_def cd_state sm
    by (simp add: create_embedding_def strip_ev empty_store_def new_generator_def
        broken_engine_def reraise_def Let_def)
  from inst [where ?txt = "''ev''"] d
  have e: "fst (add_to_memory broken_engine api_seven ''id-1'' ''now''
            (snd (check_duplicate broken_engine api_seven empty_store (strip ''ev'') (95 / 100)))
            ''ev'' None None False) = Inl Exception" by blast
  from a b strip_blank c d e show ?thesis by blast
qed

section \<open>Memory Store: threshold and idempotent insertion\<close>

lemma strip_strip: "strip (strip s) = strip s"
proof (cases "dropWhile isspace s")
  case Nil
  have "strip s = []" unfolding strip_def Nil by simp
  then show ?thesis by simp
next
  case (Cons x a)
  then have nx: "\<not> isspace x" by (metis hd_dropWhile list.sel(1) list.distinct(1))
  let ?b = "dropWhile isspace (rev (x # a))"
  have b: "?b = dropWhile isspace (rev a) @ [x]"
    using nx by (simp add: dropWhile_append3)
  have st: "strip s = rev ?b" using Cons by (simp add: strip_def)
  have hd: "rev ?b = x # rev (dropWhile isspace (rev a))" using b by simp
  have "dropWhile isspace (strip s) = strip s" using st hd nx by simp
  then have "strip (strip s) = rev (dropWhile isspace (rev (strip s)))"
    by (simp add: strip_def)
  also have "\<dots> = rev (dropWhile isspace ?b)" using st by simp
  also have "\<dots> = rev ?b" by (simp add: dropWhile_idem)
  finally show ?thesis using st by simp
qed

lemma create_embedding_caches:
  assumes "strip t \<noteq> []" and "create_embedding api g t = (Inr q, g')"
  shows "cache g' t = Some q"
proof -
  have t: "t \<noteq> []" using assms(1) by auto
  let ?g1 = "g\<lparr>total_requests := total_requests g + 1\<rparr>"
  show ?thesis
  proof (cases "cache g t")
    case (Some e)
    then show ?thesis using assms t by (auto simp: create_embedding_def Let_def)
  next
    case None
    obtain r g2 where c: "call_api_with_retry api t ?g1 = (r, g2)"
      by (cases "call_api_with_retry api t ?g1")
    show ?thesis
    proof (cases r)
      case (Inl e)
      then show ?thesis using assms t None c by (simp add: create_embedding_def Let_def)
    next
      case (Inr emb)
      then show ?thesis using assms t None c by (auto simp: create_embedding_def Let_def)
    qed
  qed
qed

lemma create_embedding_cached:
  assumes "strip t \<noteq> []" and "cache g t = Some q"
  shows "\<exists>g'. create_embedding api g t = (Inr q, g') \<and> cache g' = cache g"
proof -
  have t: "t \<noteq> []" using assms(1) by auto
  show ?thesis using assms t by (simp add: create_embedding_def Let_def)
qed

lemma take_one: "take 1 xs = (if xs = [] then [] else [hd xs])"
  by (cases xs) simp_all

lemma search_nearest:
  assumes "strip t \<noteq> []"
    and "create_embedding api (embedding_generator mm) (strip t) = (Inr q, g)"
  shows "search_memory (nearest_engine distance) api mm t 1 None =
     (Inr (if collection mm = [] then []
           else [format_hit (nearest distance q (collection mm),
                   distance q (doc_embedding (nearest distance q (collection mm))))]),
      mm\<lparr>embedding_generator := g\<rparr>)"
proof -
  have t: "t \<noteq> []" using assms(1) by auto
  have f: "filter (matches_filter None) (collection mm) = collection mm"
    by (simp add: matches_filter_def)
  have q: "nearest_query distance (collection mm) q 1 None =
      Inr (if collection mm = [] then []
           else [(nearest distance q (collection mm),
                   distance q (doc_embedding (nearest distance q (collection mm))))])"
    unfolding nearest_query_def f take_one
    by (simp add: nearest_def sort_key_Nil_iff)
  show ?thesis using assms t q
    by (simp add: search_memory_def nearest_engine_def)
qed

lemma nearest_least:
  assumes "docs \<noteq> []"
  shows "nearest distance q docs \<in> set docs"
    and "\<forall>d\<in>set docs. distance q (doc_embedding (nearest distance q docs))
           \<le> distance q (doc_embedding d)"
proof -
  let ?f = "\<lambda>d. distance q (doc_embedding d)"
  from hd_sort_key_split [OF assms, of ?f] obtain ys zs where
    split: "docs = ys @ hd (sort_key ?f docs) # zs" and
    before: "\<forall>y\<in>set ys. ?f (hd (sort_key ?f docs)) < ?f y" and
    after: "\<forall>z\<in>set zs. ?f (hd (sort_key ?f docs)) \<le> ?f z"
    by blast
  show "nearest distance q docs \<in> set docs"
    unfolding nearest_def using split by (metis in_set_conv_decomp)
  show "\<forall>d\<in>set docs. ?f (nearest distance q docs) \<le> ?f d"
  proof
    fix d assume "d \<in> set docs"
    then have "d \<in> set ys \<or> d = hd (sort_key ?f docs) \<or> d \<in> set zs"
      using split by (metis Un_iff set_ConsD set_append)
    then show "?f (nearest distance q docs) \<le> ?f d"
      unfolding nearest_def using before after by fastforce
  qed
qed

lemma check_duplicate_nearest:
  assumes "strip t \<noteq> []"
    and "create_embedding api (embedding_generator mm) (strip t) = (Inr q, g)"
  shows "check_duplicate (nearest_engine distance) api mm t th =
     (if collection mm \<noteq> []
         \<and> th \<le> 1 - distance q (doc_embedding (nearest distance q (collection mm)))
      then Inr (Some (format_hit (nearest distance q (collection mm),
                   distance q (doc_embedding (nearest distance q (collection mm))))))
      else Inr None,
      mm\<lparr>embedding_generator := g\<rparr>)"
proof -
  have t: "t \<noteq> []" using assms(1) by auto
  show ?thesis
    unfolding check_duplicate_cases search_nearest [OF assms]
    using assms(1) t by (simp add: format_hit_def)
qed

lemma search_memory_state:
  assumes "strip t \<noteq> []"
  shows "snd (search_memory eng api mm t k f)
     = mm\<lparr>embedding_generator :=
            snd (create_embedding api (embedding_generator mm) (strip t))\<rparr>"
proof -
  have t: "t \<noteq> []" using assms by auto
  obtain r g where c: "create_embedding api (embedding_generator mm) (strip t) = (r, g)"
    by (cases "create_embedding api (embedding_generator mm) (strip t)")
  show ?thesis
  proof (cases r)
    case (Inl e)
    then show ?thesis using assms t c by (simp add: search_memory_def)
  next
    case (Inr q)
    then show ?thesis using assms t c
      by (cases "eng_query eng (collection mm) q k f") (simp_all add: search_memory_def)
  qed
qed

lemma check_duplicate_state:
  "snd (check_duplicate eng api mm t th)
     = (if strip t = [] then mm
        else mm\<lparr>embedding_generator :=
                 snd (create_embedding api (embedding_generator mm) (strip t))\<rparr>)"
proof (cases "strip t = []")
  case True
  then show ?thesis by (simp add: check_duplicate_cases)
next
  case False
  then have "t \<noteq> []" by auto
  then show ?thesis using False
    by (simp add: check_duplicate_cases search_memory_state)
qed

lemma nearest_engine_answers: "answers_nearest distance (nearest_engine distance)"
  unfolding answers_nearest_def
proof (intro allI)
  fix docs :: "'a document list" and q
  have f: "filter (matches_filter None) docs = docs" by (simp add: matches_filter_def)
  show "if docs = [] then eng_query (nearest_engine distance) docs q 1 None = Inr []
        else (\<exists>d\<in>set docs.
                eng_query (nearest_engine distance) docs q 1 None
                  = Inr [(d, distance q (doc_embedding d))]
                \<and> (\<forall>d'\<in>set docs.
                     distance q (doc_embedding d) \<le> distance q (doc_embedding d')))"
  proof (cases "docs = []")
    case True
    then show ?thesis by (simp add: nearest_engine_def nearest_query_def f)
  next
    case False
    have "nearest_query distance docs q 1 None
        = Inr [(nearest distance q docs, distance q (doc_embedding (nearest distance q docs)))]"
      unfolding nearest_query_def f take_one
      using False by (simp add: nearest_def sort_key_Nil_iff)
    then have "eng_query (nearest_engine distance) docs q 1 None
        = Inr [(nearest distance q docs, distance q (doc_embedding (nearest distance q docs)))]"
      by (simp add: nearest_engine_def)
    then show ?thesis using False nearest_least [OF False, of distance q] by auto
  qed
qed

lemma search_answers_nearest:
  assumes an: "answers_nearest distance eng"
    and ne: "strip t \<noteq> []"
    and ce: "fst (create_embedding api (embedding_generator mm) (strip t)) = Inr q"
  shows "if collection mm = [] then fst (search_memory eng api mm t 1 None) = Inr []
         else (\<exists>d\<in>set (collection mm).
                 fst (search_memory eng api mm t 1 None)
                   = Inr [format_hit (d, distance q (doc_embedding d))]
                 \<and> (\<forall>d'\<in>set (collection mm).
                      distance q (doc_embedding d) \<le> distance q (doc_embedding d')))"
proof -
  have t: "t \<noteq> []" using ne by auto
  obtain g where c: "create_embedding api (embedding_generator mm) (strip t) = (Inr q, g)"
    using ce by (cases "create_embedding api (embedding_generator mm) (strip t)") simp
  from an have q: "if collection mm = [] then eng_query eng (collection mm) q 1 None = Inr []
        else (\<exists>d\<in>set (collection mm).
                eng_query eng (collection mm) q 1 None = Inr [(d, distance q (doc_embedding d))]
                \<and> (\<forall>d'\<in>set (collection mm).
                     distance q (doc_embedding d) \<le> distance q (doc_embedding d')))"
    unfolding answers_nearest_def by blast
  show ?thesis
  proof (cases "collection mm = []")
    case True
    then have "eng_query eng (collection mm) q 1 None = Inr []" using q by simp
    then have "fst (search_memory eng api mm t 1 None) = Inr []"
      unfolding search_memory_def using ne t c by simp
    then show ?thesis using True by simp
  next
    case False
    then obtain d where d: "d \<in> set (collection mm)"
      "eng_query eng (collection mm) q 1 None = Inr [(d, distance q (doc_embedding d))]"
      "\<forall>d'\<in>set (collection mm). distance q (doc_embedding d) \<le> distance q (doc_embedding d')"
      using q by auto
    have "fst (search_memory eng api mm t 1 None)
        = Inr [format_hit (d, distance q (doc_embedding d))]"
      unfolding search_memory_def using ne t c d(2) by simp
    then show ?thesis using False d(1,3) by auto
  qed
qed

lemma call_api_with_retry_cases:
  "call_api_with_retry api s g =
     (case provided api s of Some q \<Rightarrow> Inr q | None \<Rightarrow> Inl Exception,
      g\<lparr>api_call_count := api_call_count g + attempts_made api s\<rparr>)"
proof -
  have u: "[0..<3] = [0, 1, 2::nat]" by (simp add: upt_rec)
  show ?thesis
    unfolding call_api_with_retry_def u
    by (simp add: provided_def attempts_made_def Let_def split: option.splits)
qed

lemma create_embedding_cases:
  assumes "strip s \<noteq> []"
  shows "create_embedding api g s =
     (case cache g s of
        Some e \<Rightarrow>
          (Inr e, g\<lparr>total_requests := total_requests g + 1,
                     cache_hit_count := cache_hit_count g + 1,
                     cache_hits := cache_hits g + 1\<rparr>)
      | None \<Rightarrow>
          (case provided api s of
             Some q \<Rightarrow>
               (Inr q, g\<lparr>total_requests := total_requests g + 1,
                          api_call_count := api_call_count g + attempts_made api s,
                          cache := (cache g)(s \<mapsto> q),
                          embedding_count := embedding_count g + 1\<rparr>)
           | None \<Rightarrow>
               (Inl Exception, g\<lparr>total_requests := total_requests g + 1,
                                  api_call_count := api_call_count g + 3\<rparr>)))"
proof -
  have s: "s \<noteq> []" using assms by auto
  have three: "provided api s = None \<Longrightarrow> attempts_made api s = 3"
    by (simp add: provided_def attempts_made_def split: option.splits)
  show ?thesis
  proof (cases "cache g s")
    case (Some e)
    then show ?thesis using assms s by (simp add: create_embedding_def)
  next
    case None
    show ?thesis
    proof (cases "provided api s")
      case pn: None
      then show ?thesis using None assms s three
        by (simp add: create_embedding_def call_api_with_retry_cases)
    next
      case (Some q)
      then show ?thesis using None assms s
        by (simp add: create_embedding_def call_api_with_retry_cases)
    qed
  qed
qed

lemma create_embedding_embedding_of:
  assumes "strip s \<noteq> []"
  shows "fst (create_embedding api g s) =
     (case embedding_of api g s of Some q \<Rightarrow> Inr q | None \<Rightarrow> Inl Exception)"
  unfolding create_embedding_cases [OF assms] embedding_of_def
  by (simp split: option.splits)

lemma create_embedding_after_lookup:
  assumes "strip s \<noteq> []"
  shows "snd (create_embedding api g s) = after_lookup api g s"
  unfolding create_embedding_cases [OF assms] after_lookup_def
  by (simp split: option.splits)

lemma check_duplicate_after_lookup:
  assumes "strip t \<noteq> []"
  shows "snd (check_duplicate eng api mm t th)
     = mm\<lparr>embedding_generator := after_lookup api (embedding_generator mm) (strip t)\<rparr>"
proof -
  have "strip (strip t) \<noteq> []" using assms by (simp add: strip_strip)
  then have "snd (create_embedding api (embedding_generator mm) (strip t))
      = after_lookup api (embedding_generator mm) (strip t)"
    by (rule create_embedding_after_lookup)
  then show ?thesis using assms by (simp add: check_duplicate_state)
qed

lemma check_duplicate_no_embedding:
  assumes ne: "strip t \<noteq> []"
    and no: "embedding_of api (embedding_generator mm) (strip t) = None"
  shows "fst (check_duplicate eng api mm t th) = Inr None"
proof -
  have t: "t \<noteq> []" using ne by auto
  have ss: "strip (strip t) \<noteq> []" using ne by (simp add: strip_strip)
  have "fst (create_embedding api (embedding_generator mm) (strip t)) = Inl Exception"
    using create_embedding_embedding_of [OF ss, of api "embedding_generator mm"] no by simp
  then obtain g where
    "create_embedding api (embedding_generator mm) (strip t) = (Inl Exception, g)"
    by (cases "create_embedding api (embedding_generator mm) (strip t)") simp
  then have "fst (search_memory eng api mm t 1 None) = Inl (reraise Exception)"
    using ne t by (simp add: search_memory_def)
  then show ?thesis using ne t by (simp add: check_duplicate_cases)
qed

lemma check_duplicate_answers_nearest:
  assumes an: "answers_nearest distance eng"
    and ne: "strip t \<noteq> []"
    and em: "embedding_of api (embedding_generator mm) (strip t) = Some q"
  shows "if collection mm = [] then fst (check_duplicate eng api mm t th) = Inr None
         else (\<exists>d\<in>set (collection mm).
                 (\<forall>d'\<in>set (collection mm).
                    distance q (doc_embedding d) \<le> distance q (doc_embedding d'))
                 \<and> fst (check_duplicate eng api mm t th) =
                     (if th \<le> 1 - distance q (doc_embedding d)
                      then Inr (Some \<lparr>hit_id = doc_id d, hit_text = doc_text d,
                                        hit_metadata = doc_metadata d,
                                        hit_similarity = 1 - distance q (doc_embedding d)\<rparr>)
                      else Inr None))"
proof -
  have t: "t \<noteq> []" using ne by auto
  have ss: "strip (strip t) \<noteq> []" using ne by (simp add: strip_strip)
  have ce: "fst (create_embedding api (embedding_generator mm) (strip t)) = Inr q"
    using create_embedding_embedding_of [OF ss, of api "embedding_generator mm"] em by simp
  note sm = search_answers_nearest [OF an ne ce]
  show ?thesis
  proof (cases "collection mm = []")
    case True
    then have "fst (search_memory eng api mm t 1 None) = Inr []" using sm by simp
    then show ?thesis using True ne t by (simp add: check_duplicate_cases)
  next
    case False
    then obtain d where d: "d \<in> set (collection mm)"
      "fst (search_memory eng api mm t 1 None)
         = Inr [format_hit (d, distance q (doc_embedding d))]"
      "\<forall>d'\<in>set (collection mm). distance q (doc_embedding d) \<le> distance q (doc_embedding d')"
      using sm by auto
    have "fst (check_duplicate eng api mm t th) =
                     (if th \<le> 1 - distance q (doc_embedding d)
                      then Inr (Some \<lparr>hit_id = doc_id d, hit_text = doc_text d,
                                        hit_metadata = doc_metadata d,
                                        hit_similarity = 1 - distance q (doc_embedding d)\<rparr>)
                      else Inr None)"
      using d(2) ne t by (simp add: check_duplicate_cases format_hit_def)
    then show ?thesis using False d(1,3) by auto
  qed
qed

text \<open>
  Claim C6, as amended. \<open>check_duplicate\<close> never changes the collection of stored
  documents. It returns a hit exactly when the text is not blank, the search for the
  single nearest neighbour succeeds and gives that hit, and the hit's similarity is at
  least the threshold; in every other case it returns nothing. For a blank text it
  returns nothing and changes no state at all. For any other text it changes the
  Embedding Cache, and nothing else, by exactly one lookup of the stripped text: the
  request counter goes up by one; a cached text adds one to both hit counters; a text
  that is not cached adds the attempts made to the provider call counter and, when an
  attempt succeeds, stores the embedding under the text and adds one to the embedding
  counter. When no embedding can be had the call returns nothing. When the engine
  answers a query for one result with a stored document at the least distance from the
  query, whichever it picks among several at that distance, the call returns that
  document's id, text and metadata with the similarity, one minus the distance, if the
  similarity is at least the threshold, and nothing if it is not or the store is empty.
\<close>

theorem check_duplicate_threshold:
  "collection (snd (check_duplicate eng api mm t th)) = collection mm
   \<and> (fst (check_duplicate eng api mm t th) = Inr (Some hit) \<longleftrightarrow>
        t \<noteq> [] \<and> strip t \<noteq> []
        \<and> (\<exists>rest. fst (search_memory eng api mm t 1 None) = Inr (hit # rest))
        \<and> hit_similarity hit \<ge> th)
   \<and> ((\<forall>h. fst (check_duplicate eng api mm t th) \<noteq> Inr (Some h)) \<longrightarrow>
        fst (check_duplicate eng api mm t th) = Inr None)
   \<and> (strip t = [] \<longrightarrow> check_duplicate eng api mm t th = (Inr None, mm))
   \<and> (strip t \<noteq> [] \<longrightarrow>
        snd (check_duplicate eng api mm t th)
          = mm\<lparr>embedding_generator := after_lookup api (embedding_generator mm) (strip t)\<rparr>)
   \<and> (strip t \<noteq> [] \<and> embedding_of api (embedding_generator mm) (strip t) = None \<longrightarrow>
        fst (check_duplicate eng api mm t th) = Inr None)
   \<and> (answers_nearest distance eng \<and> strip t \<noteq> []
        \<and> embedding_of api (embedding_generator mm) (strip t) = Some q \<longrightarrow>
        (if collection mm = [] then fst (check_duplicate eng api mm t th) = Inr None
         else (\<exists>d\<in>set (collection mm).
                 (\<forall>d'\<in>set (collection mm).
                    distance q (doc_embedding d) \<le> distance q (doc_embedding d'))
                 \<and> fst (check_duplicate eng api mm t th) =
                     (if th \<le> 1 - distance q (doc_embedding d)
                      then Inr (Some \<lparr>hit_id = doc_id d, hit_text = doc_text d,
                                        hit_metadata = doc_metadata d,
                                        hit_similarity = 1 - distance q (doc_embedding d)\<rparr>)
                      else Inr None))))"
proof (intro conjI)
  show "collection (snd (check_duplicate eng api mm t th)) = collection mm"
    by (rule check_duplicate_collection)
  show "fst (check_duplicate eng api mm t th) = Inr (Some hit) \<longleftrightarrow>
        t \<noteq> [] \<and> strip t \<noteq> []
        \<and> (\<exists>rest. fst (search_memory eng api mm t 1 None) = Inr (hit # rest))
        \<and> hit_similarity hit \<ge> th"
    by (rule check_duplicate_Some_iff)
  show "(\<forall>h. fst (check_duplicate eng api mm t th) \<noteq> Inr (Some h)) \<longrightarrow>
        fst (check_duplicate eng api mm t th) = Inr None"
    using check_duplicate_returns [of eng api mm t th] by (metis option.exhaust)
  show "strip t = [] \<longrightarrow> check_duplicate eng api mm t th = (Inr None, mm)"
    by (simp add: check_duplicate_cases)
  show "strip t \<noteq> [] \<longrightarrow>
        snd (check_duplicate eng api mm t th)
          = mm\<lparr>embedding_generator := after_lookup api (embedding_generator mm) (strip t)\<rparr>"
    by (simp add: check_duplicate_after_lookup)
  show "strip t \<noteq> [] \<and> embedding_of api (embedding_generator mm) (strip t) = None \<longrightarrow>
        fst (check_duplicate eng api mm t th) = Inr None"
    by (simp add: check_duplicate_no_embedding)
  show "answers_nearest distance eng \<and> strip t \<noteq> []
        \<and> embedding_of api (embedding_generator mm) (strip t) = Some q \<longrightarrow>
        (if collection mm = [] then fst (check_duplicate eng api mm t th) = Inr None
         else (\<exists>d\<in>set (collection mm).
                 (\<forall>d'\<in>set (collection mm).
                    distance q (doc_embedding d) \<le> distance q (doc_embedding d'))
                 \<and> fst (check_duplicate eng api mm t th) =
                     (if th \<le> 1 - distance q (doc_embedding d)
                      then Inr (Some \<lparr>hit_id = doc_id d, hit_text = doc_text d,
                                        hit_metadata = doc_metadata d,
                                        hit_similarity = 1 - distance q (doc_embedding d)\<rparr>)
                      else Inr None)))"
    using check_duplicate_answers_nearest [of distance eng t api mm q th] by blast
qed

text \<open>
  \<open>check_duplicate\<close> changes component state: here it finds the stored duplicate,
  and afterwards the embedding generator has counted a request and cached the text's
  embedding.
\<close>

theorem check_duplicate_mutates_counterexample:
  "fst (check_duplicate (nearest_engine unit_distance) api_seven store_with_ev ''ev'' (95 / 100))
     = Inr (Some \<lparr>hit_id = ''doc-1'', hit_text = ''ev'', hit_metadata = [], hit_similarity = 1\<rparr>)
   \<and> total_requests (embedding_generator store_with_ev) = 0
   \<and> total_requests (embedding_generator
        (snd (check_duplicate (nearest_engine unit_distance) api_seven store_with_ev ''ev''
               (95 / 100)))) = 1
   \<and> cache (embedding_generator store_with_ev) ''ev'' = None
   \<and> cache (embedding_generator
        (snd (check_duplicate (nearest_engine unit_distance) api_seven store_with_ev ''ev''
               (95 / 100)))) ''ev'' = Some 7
   \<and> snd (check_duplicate (nearest_engine unit_distance) api_seven store_with_ev ''ev''
             (95 / 100)) \<noteq> store_with_ev"
proof -
  let ?g = "new_generator\<lparr>total_requests := 1, api_call_count := 1,
          cache := [''ev'' \<mapsto> 7], embedding_count := 1\<rparr>"
  have ce: "create_embedding api_seven (embedding_generator store_with_ev) (strip ''ev'')
      = (Inr 7, ?g)"
    by (simp add: strip_ev store_with_ev_def create_embedding_seven_new)
  have ne: "strip ''ev'' \<noteq> []" by (simp add: strip_ev)
  have n: "nearest unit_distance 7 (collection store_with_ev) = stored_ev"
    by (simp add: nearest_def store_with_ev_def)
  have r: "check_duplicate (nearest_engine unit_distance) api_seven store_with_ev ''ev'' (95 / 100)
      = (Inr (Some \<lparr>hit_id = ''doc-1'', hit_text = ''ev'', hit_metadata = [],
                     hit_similarity = 1\<rparr>),
         store_with_ev\<lparr>embedding_generator := ?g\<rparr>)"
    unfolding check_duplicate_nearest [OF ne ce] n
    by (simp add: store_with_ev_def stored_ev_def unit_distance_def format_hit_def)
  have z: "total_requests (embedding_generator store_with_ev) = 0
      \<and> cache (embedding_generator store_with_ev) ''ev'' = None"
    by (simp add: store_with_ev_def new_generator_def)
  have o: "total_requests (embedding_generator (store_with_ev\<lparr>embedding_generator := ?g\<rparr>)) = 1"
    by simp
  then have "store_with_ev\<lparr>embedding_generator := ?g\<rparr> \<noteq> store_with_ev"
    using z by (metis zero_neq_one)
  then show ?thesis using r z by simp
qed

theorem check_duplicate_threshold_witness:
  "answers_nearest unit_distance (nearest_engine unit_distance)
   \<and> strip ''ev'' \<noteq> []
   \<and> embedding_of api_seven (embedding_generator store_with_ev) (strip ''ev'') = Some 7
   \<and> collection store_with_ev \<noteq> []
   \<and> check_duplicate (nearest_engine unit_distance) api_seven store_with_ev ''ev'' (95 / 100)
       = (Inr (Some \<lparr>hit_id = ''doc-1'', hit_text = ''ev'', hit_metadata = [],
                      hit_similarity = 1\<rparr>),
          store_with_ev\<lparr>embedding_generator :=
            new_generator\<lparr>total_requests := 1, api_call_count := 1,
              cache := [''ev'' \<mapsto> 7], embedding_count := 1\<rparr>\<rparr>)
   \<and> strip ''  '' = []
   \<and> check_duplicate (nearest_engine unit_distance) api_seven store_with_ev ''  '' (95 / 100)
       = (Inr None, store_with_ev)
   \<and> embedding_of api_down (embedding_generator store_with_ev) (strip ''ev'') = None
   \<and> check_duplicate (nearest_engine unit_distance) api_down store_with_ev ''ev'' (95 / 100)
       = (Inr None,
          store_with_ev\<lparr>embedding_generator :=
            new_generator\<lparr>total_requests := 1, api_call_count := 3\<rparr>\<rparr>)"
proof -
  have an: "answers_nearest unit_distance (nearest_engine unit_distance)"
    by (rule nearest_engine_answers)
  have ne: "strip ''ev'' \<noteq> []" by (simp add: strip_ev)
  have bl: "strip ''  '' = []" by (rule strip_blank)
  have c: "collection store_with_ev \<noteq> []" by (simp add: store_with_ev_def)
  have em: "embedding_of api_seven (embedding_generator store_with_ev) (strip ''ev'') = Some 7"
    by (simp add: strip_ev embedding_of_def store_with_ev_def new_generator_def provided_def
        api_seven_def)
  have al: "after_lookup api_seven (embedding_generator store_with_ev) (strip ''ev'')
      = new_generator\<lparr>total_requests := 1, api_call_count := 1,
              cache := [''ev'' \<mapsto> 7], embedding_count := 1\<rparr>"
    by (simp add: strip_ev after_lookup_def store_with_ev_def new_generator_def provided_def
        attempts_made_def api_seven_def)
  have ed: "embedding_of api_down (embedding_generator store_with_ev) (strip ''ev'') = None"
    by (simp add: strip_ev embedding_of_def store_with_ev_def new_generator_def provided_def
        api_down_def)
  have ad: "after_lookup api_down (embedding_generator store_with_ev) (strip ''ev'')
      = new_generator\<lparr>total_requests := 1, api_call_count := 3\<rparr>"
    by (simp add: strip_ev after_lookup_def store_with_ev_def new_generator_def provided_def
        api_down_def)
  note found = check_duplicate_threshold [where eng = "nearest_engine unit_distance"
      and api = api_seven and mm = store_with_ev and t = "''ev''" and th = "95 / 100" and q = 7
      and distance = unit_distance]
  note blank = check_duplicate_threshold [where eng = "nearest_engine unit_distance"
      and api = api_seven and mm = store_with_ev and t = "''  ''" and th = "95 / 100"]
  note down = check_duplicate_threshold [where eng = "nearest_engine unit_distance"
      and api = api_down and mm = store_with_ev and t = "''ev''" and th = "95 / 100"]
  note found_state = found [THEN conjunct2, THEN conjunct2, THEN conjunct2, THEN conjunct2,
      THEN conjunct1, THEN mp, OF ne]
  note found_hit = found [THEN conjunct2, THEN conjunct2, THEN conjunct2, THEN conjunct2,
      THEN conjunct2, THEN conjunct2, THEN mp, OF conjI [OF an conjI [OF ne em]]]
  note blank_all = blank [THEN conjunct2, THEN conjunct2, THEN conjunct2, THEN conjunct1,
      THEN mp, OF bl]
  note down_state = down [THEN conjunct2, THEN conjunct2, THEN conjunct2, THEN conjunct2,
      THEN conjunct1, THEN mp, OF ne]
  note down_none = down [THEN conjunct2, THEN conjunct2, THEN conjunct2, THEN conjunct2,
      THEN conjunct2, THEN conjunct1, THEN mp, OF conjI [OF ne ed]]
  have d0: "unit_distance 7 (doc_embedding stored_ev) = 0"
    by (simp add: unit_distance_def stored_ev_def)
  have cs: "collection store_with_ev = [stored_ev]" by (simp add: store_with_ev_def)
  have f1: "fst (check_duplicate (nearest_engine unit_distance) api_seven store_with_ev ''ev''
        (95 / 100))
      = Inr (Some \<lparr>hit_id = ''doc-1'', hit_text = ''ev'', hit_metadata = [],
                      hit_similarity = 1\<rparr>)"
    using found_hit unfolding cs by (simp add: d0) (simp add: stored_ev_def)
  have s1: "snd (check_duplicate (nearest_engine unit_distance) api_seven store_with_ev ''ev''
        (95 / 100))
      = store_with_ev\<lparr>embedding_generator :=
            new_generator\<lparr>total_requests := 1, api_call_count := 1,
              cache := [''ev'' \<mapsto> 7], embedding_count := 1\<rparr>\<rparr>"
    using found_state unfolding al .
  have b: "check_duplicate (nearest_engine unit_distance) api_seven store_with_ev ''  ''
        (95 / 100) = (Inr None, store_with_ev)"
    by (rule blank_all)
  have f3: "fst (check_duplicate (nearest_engine unit_distance) api_down store_with_ev ''ev''
        (95 / 100)) = Inr None"
    by (rule down_none)
  have s3: "snd (check_duplicate (nearest_engine unit_distance) api_down store_with_ev ''ev''
        (95 / 100))
      = store_with_ev\<lparr>embedding_generator :=
            new_generator\<lparr>total_requests := 1, api_call_count := 3\<rparr>\<rparr>"
    using down_state unfolding ad .
  have p1: "check_duplicate (nearest_engine unit_distance) api_seven store_with_ev ''ev''
        (95 / 100)
       = (Inr (Some \<lparr>hit_id = ''doc-1'', hit_text = ''ev'', hit_metadata = [],
                      hit_similarity = 1\<rparr>),
          store_with_ev\<lparr>embedding_generator :=
            new_generator\<lparr>total_requests := 1, api_call_count := 1,
              cache := [''ev'' \<mapsto> 7], embedding_count := 1\<rparr>\<rparr>)"
    by (rule prod_eqI) (simp_all only: fst_conv snd_conv f1 s1)
  have p3: "check_duplicate (nearest_engine unit_distance) api_down store_with_ev ''ev''
        (95 / 100)
       = (Inr None,
          store_with_ev\<lparr>embedding_generator :=
            new_generator\<lparr>total_requests := 1, api_call_count := 3\<rparr>\<rparr>)"
    by (rule prod_eqI) (simp_all only: fst_conv snd_conv f3 s3)
  show ?thesis
    using an ne em c p1 bl b ed p3 by (intro conjI)
qed

lemma add_to_memory_checked:
  assumes sne: "strip t \<noteq> []"
    and ce: "create_embedding api (embedding_generator mm) (strip t) = (Inr q, g)"
  shows "add_to_memory (nearest_engine distance) api uuid now mm t md None True =
     (if collection mm \<noteq> []
         \<and> 95 / 100 \<le> 1 - distance q (doc_embedding (nearest distance q (collection mm)))
      then (Inr (doc_id (nearest distance q (collection mm))),
            mm\<lparr>embedding_generator := g\<rparr>)
      else (Inr uuid,
            mm\<lparr>collection :=
                 (if uuid \<in> set (map doc_id (collection mm)) then collection mm
                  else collection mm @
                    [\<lparr>doc_id = uuid, doc_text = strip t, doc_embedding = q,
                      doc_metadata = stamp_metadata md now (strip t)\<rparr>]),
               embedding_generator := snd (create_embedding api g (strip t))\<rparr>))"
proof -
  have t: "t \<noteq> []" using sne by auto
  have ss: "strip (strip t) \<noteq> []" using sne by (simp add: strip_strip)
  have ce': "create_embedding api (embedding_generator mm) (strip (strip t)) = (Inr q, g)"
    using ce by (simp add: strip_strip)
  note chk = check_duplicate_nearest [OF ss ce', of distance "95 / 100"]
  have cached: "cache g (strip t) = Some q"
    using create_embedding_caches [OF _ ce'] sne by (simp add: strip_strip)
  from create_embedding_cached [OF ss, of g q api] cached
  obtain g' where g': "create_embedding api g (strip t) = (Inr q, g')"
    by (auto simp: strip_strip)
  show ?thesis
  proof (cases "collection mm \<noteq> []
         \<and> 95 / 100 \<le> 1 - distance q (doc_embedding (nearest distance q (collection mm)))")
    case True
    then show ?thesis using t sne chk
      by (simp add: add_to_memory_def Let_def format_hit_def)
  next
    case False
    then have c: "check_duplicate (nearest_engine distance) api mm (strip t) (95 / 100)
        = (Inr None, mm\<lparr>embedding_generator := g\<rparr>)"
      using chk by auto
    show ?thesis using False t sne c g'
      by (auto simp: add_to_memory_def Let_def get_or_def nearest_engine_def
          append_document_def)
  qed
qed

text \<open>
  Claim C2, as amended. Take a text that is not blank and whose embedding the generator
  can produce, an engine that answers with the nearest documents and puts an embedding
  at distance 0 from itself, and a fresh generated id. Two calls of
  \<open>add_to_memory\<close> with duplicate checking and no id given return the same id, and
  the second stores nothing. The first stores one document when no stored document has
  similarity at least 0.95 to the text, and none when one does.
\<close>

theorem add_twice_one_document:
  assumes "strip t \<noteq> []"
    and "fst (create_embedding api (embedding_generator mm) (strip t)) = Inr q"
    and "distance q q = 0"
    and "uuid1 \<notin> set (map doc_id (collection mm))"
    and "add_to_memory (nearest_engine distance) api uuid1 now1 mm t md1 None True = (r1, mm1)"
    and "add_to_memory (nearest_engine distance) api uuid2 now2 mm1 t md2 None True = (r2, mm2)"
  shows "(\<exists>i. r1 = Inr i \<and> r2 = Inr i)
     \<and> length (collection mm2) = length (collection mm1)
     \<and> length (collection mm1) = length (collection mm)
         + (if \<exists>d\<in>set (collection mm). 95 / 100 \<le> 1 - distance q (doc_embedding d)
            then 0 else 1)"
proof -
  let ?docs = "collection mm"
  let ?n = "nearest distance q ?docs"
  let ?f = "\<lambda>d. distance q (doc_embedding d)"
  obtain g where ce: "create_embedding api (embedding_generator mm) (strip t) = (Inr q, g)"
    using assms(2) by (cases "create_embedding api (embedding_generator mm) (strip t)") simp
  have cached: "cache g (strip t) = Some q"
    using create_embedding_caches [OF _ ce] assms(1) by (simp add: strip_strip)
  have ss: "strip (strip t) \<noteq> []" using assms(1) by (simp add: strip_strip)
  from create_embedding_cached [OF ss, of g q api] cached
  obtain g' where g': "create_embedding api g (strip t) = (Inr q, g')" and cg': "cache g' = cache g"
    by (auto simp: strip_strip)
  note first = add_to_memory_checked [OF assms(1) ce, of distance uuid1 now1 md1]
  show ?thesis
  proof (cases "?docs \<noteq> [] \<and> 95 / 100 \<le> 1 - ?f ?n")
    case True
    then have r1: "r1 = Inr (doc_id ?n)" and mm1: "mm1 = mm\<lparr>embedding_generator := g\<rparr>"
      using first assms(5) by simp_all
    have ce1: "create_embedding api (embedding_generator mm1) (strip t) = (Inr q, g')"
      using g' mm1 by simp
    from add_to_memory_checked [OF assms(1) ce1, of distance uuid2 now2 md2] assms(6) True mm1
    have r2: "r2 = Inr (doc_id ?n)" and mm2: "collection mm2 = collection mm1"
      by auto
    have "\<exists>d\<in>set ?docs. 95 / 100 \<le> 1 - ?f d"
      using True nearest_least(1) [of ?docs distance q] by blast
    then show ?thesis using r1 r2 mm1 mm2 by simp
  next
    case False
    let ?d = "\<lparr>doc_id = uuid1, doc_text = strip t, doc_embedding = q,
               doc_metadata = stamp_metadata md1 now1 (strip t)\<rparr>"
    have r1: "r1 = Inr uuid1"
      and mm1: "mm1 = mm\<lparr>collection := ?docs @ [?d], embedding_generator := g'\<rparr>"
      using first assms(4,5) False g' by auto
    have none: "\<not> (\<exists>d\<in>set ?docs. 95 / 100 \<le> 1 - ?f d)"
    proof
      assume "\<exists>d\<in>set ?docs. 95 / 100 \<le> 1 - ?f d"
      then obtain d where d: "d \<in> set ?docs" "95 / 100 \<le> 1 - ?f d" by blast
      then have ne: "?docs \<noteq> []" by auto
      from nearest_least(2) [OF ne, of distance q] d have "?f ?n \<le> ?f d" by blast
      then show False using False ne d(2) by simp
    qed
    have cached': "cache g' (strip t) = Some q" using cached cg' by simp
    from create_embedding_cached [OF ss, of g' q api] cached'
    obtain g'' where g'': "create_embedding api g' (strip t) = (Inr q, g'')"
      by (auto simp: strip_strip)
    have ce1: "create_embedding api (embedding_generator mm1) (strip t) = (Inr q, g'')"
      using g'' mm1 by simp
    let ?docs1 = "?docs @ [?d]"
    let ?n1 = "nearest distance q ?docs1"
    have ne1: "?docs1 \<noteq> []" by simp
    have in1: "?n1 \<in> set ?docs1" using nearest_least(1) [OF ne1] .
    have "?f ?n1 \<le> ?f ?d" using nearest_least(2) [OF ne1, of distance q] by simp
    then have le0: "?f ?n1 \<le> 0" using assms(3) by simp
    have "?n1 \<notin> set ?docs"
    proof
      assume "?n1 \<in> set ?docs"
      then have "\<not> 95 / 100 \<le> 1 - ?f ?n1" using none by blast
      then show False using le0 by simp
    qed
    then have n1: "?n1 = ?d" using in1 by simp
    have dup: "collection mm1 \<noteq> []
        \<and> 95 / 100 \<le> 1 - ?f (nearest distance q (collection mm1))"
      using mm1 le0 by simp
    from add_to_memory_checked [OF assms(1) ce1, of distance uuid2 now2 md2] assms(6) dup
    have r2: "r2 = Inr (doc_id (nearest distance q (collection mm1)))"
      and mm2: "collection mm2 = collection mm1"
      by auto
    have "doc_id (nearest distance q (collection mm1)) = uuid1"
      using mm1 n1 by simp
    then show ?thesis using r1 r2 mm1 mm2 none by simp
  qed
qed

theorem add_twice_one_document_witness:
  "strip ''ev'' \<noteq> []
   \<and> fst (create_embedding api_seven (embedding_generator empty_store) (strip ''ev'')) = Inr 7
   \<and> unit_distance 7 7 = 0
   \<and> ''id-1'' \<notin> set (map doc_id (collection empty_store))
   \<and> fst (add_to_memory (nearest_engine unit_distance) api_seven ''id-1'' ''now'' empty_store
            ''ev'' None None True) = Inr ''id-1''
   \<and> fst (add_to_memory (nearest_engine unit_distance) api_seven ''id-2'' ''later''
            (snd (add_to_memory (nearest_engine unit_distance) api_seven ''id-1'' ''now''
                    empty_store ''ev'' None None True))
            ''ev'' None None True) = Inr ''id-1''
   \<and> length (collection (snd (add_to_memory (nearest_engine unit_distance) api_seven ''id-2''
            ''later''
            (snd (add_to_memory (nearest_engine unit_distance) api_seven ''id-1'' ''now''
                    empty_store ''ev'' None None True))
            ''ev'' None None True))) = 1"
proof -
  let ?first = "add_to_memory (nearest_engine unit_distance) api_seven ''id-1'' ''now''
      empty_store ''ev'' None None True"
  let ?second = "add_to_memory (nearest_engine unit_distance) api_seven ''id-2'' ''later''
      (snd ?first) ''ev'' None None True"
  have ne: "strip ''ev'' \<noteq> []" by (simp add: strip_ev)
  have ce: "create_embedding api_seven (embedding_generator empty_store) (strip ''ev'')
      = (Inr 7, new_generator\<lparr>total_requests := 1, api_call_count := 1,
          cache := [''ev'' \<mapsto> 7], embedding_count := 1\<rparr>)"
    by (simp add: strip_ev empty_store_def create_embedding_seven_new)
  have ce': "fst (create_embedding api_seven (embedding_generator empty_store) (strip ''ev''))
      = Inr 7" using ce by simp
  have d: "unit_distance 7 7 = 0" by (simp add: unit_distance_def)
  have fresh: "''id-1'' \<notin> set (map doc_id (collection empty_store))"
    by (simp add: empty_store_def)
  have emp: "collection empty_store = []" by (simp add: empty_store_def)
  have r1: "fst ?first = Inr ''id-1''"
    unfolding add_to_memory_checked [OF ne ce] using emp by simp
  from add_twice_one_document [where t = "''ev''" and api = api_seven and mm = empty_store
      and q = 7 and distance = unit_distance and ?uuid1.0 = "''id-1''" and ?now1.0 = "''now''"
      and ?md1.0 = None and ?r1.0 = "fst ?first" and ?mm1.0 = "snd ?first"
      and ?uuid2.0 = "''id-2''" and ?now2.0 = "''later''" and ?md2.0 = None
      and ?r2.0 = "fst ?second" and ?mm2.0 = "snd ?second"] ne ce' d fresh
  have "(\<exists>i. fst ?first = Inr i \<and> fst ?second = Inr i)
     \<and> length (collection (snd ?second)) = length (collection (snd ?first))
     \<and> length (collection (snd ?first)) = length (collection empty_store)
         + (if \<exists>d\<in>set (collection empty_store). 95 / 100 \<le> 1 - unit_distance 7 (doc_embedding d)
            then 0 else 1)"
    by simp
  then have "fst ?second = Inr ''id-1''" and "length (collection (snd ?second)) = 1"
    using r1 emp by auto
  then show ?thesis using ne ce' d fresh r1 by simp
qed

text \<open>
  Adding a text the store already holds leaves the document count as it is, twice, so
  the count does not go up by one; and a text of two spaces, which is not empty, is
  rejected with a ValueError.
\<close>

theorem add_twice_counterexample:
  "fst (add_to_memory (nearest_engine unit_distance) api_seven ''id-1'' ''now'' store_with_ev
          ''ev'' None None True) = Inr ''doc-1''
   \<and> fst (add_to_memory (nearest_engine unit_distance) api_seven ''id-2'' ''later''
            (snd (add_to_memory (nearest_engine unit_distance) api_seven ''id-1'' ''now''
                    store_with_ev ''ev'' None None True))
            ''ev'' None None True) = Inr ''doc-1''
   \<and> length (collection (snd (add_to_memory (nearest_engine unit_distance) api_seven ''id-2''
            ''later''
            (snd (add_to_memory (nearest_engine unit_distance) api_seven ''id-1'' ''now''
                    store_with_ev ''ev'' None None True))
            ''ev'' None None True))) = length (collection store_with_ev)
   \<and> ''  '' \<noteq> []
   \<and> fst (add_to_memory (nearest_engine unit_distance) api_seven ''id-1'' ''now'' empty_store
            ''  '' None None True) = Inl ValueError"
proof -
  let ?g = "new_generator\<lparr>total_requests := 1, api_call_count := 1,
          cache := [''ev'' \<mapsto> 7], embedding_count := 1\<rparr>"
  let ?first = "add_to_memory (nearest_engine unit_distance) api_seven ''id-1'' ''now''
      store_with_ev ''ev'' None None True"
  have ne: "strip ''ev'' \<noteq> []" by (simp add: strip_ev)
  have ss: "strip (strip ''ev'') \<noteq> []" by (simp add: strip_ev)
  have ce: "create_embedding api_seven (embedding_generator store_with_ev) (strip ''ev'')
      = (Inr 7, ?g)"
    by (simp add: strip_ev store_with_ev_def create_embedding_seven_new)
  have n: "nearest unit_distance 7 (collection store_with_ev) = stored_ev"
    by (simp add: nearest_def store_with_ev_def)
  have near: "collection store_with_ev \<noteq> []
      \<and> (95 / 100 :: rat) \<le> 1 - unit_distance 7 (doc_embedding stored_ev)"
    by (simp add: store_with_ev_def unit_distance_def stored_ev_def)
  have first: "?first = (Inr ''doc-1'', store_with_ev\<lparr>embedding_generator := ?g\<rparr>)"
    unfolding add_to_memory_checked [OF ne ce] n using near by (simp add: stored_ev_def)
  have "cache ?g (strip ''ev'') = Some 7" by (simp add: strip_ev)
  from create_embedding_cached [OF ss this, of api_seven]
  obtain g2 where "create_embedding api_seven ?g (strip ''ev'') = (Inr 7, g2)"
    by (auto simp: strip_ev)
  then have ce2: "create_embedding api_seven
      (embedding_generator (store_with_ev\<lparr>embedding_generator := ?g\<rparr>)) (strip ''ev'')
      = (Inr 7, g2)" by simp
  have col: "collection (store_with_ev\<lparr>embedding_generator := ?g\<rparr>) = collection store_with_ev"
    by simp
  have second: "add_to_memory (nearest_engine unit_distance) api_seven ''id-2'' ''later''
      (store_with_ev\<lparr>embedding_generator := ?g\<rparr>) ''ev'' None None True
      = (Inr ''doc-1'', store_with_ev\<lparr>embedding_generator := g2\<rparr>)"
    unfolding add_to_memory_checked [OF ne ce2] col n using near by (simp add: stored_ev_def)
  have blank: "fst (add_to_memory (nearest_engine unit_distance) api_seven ''id-1'' ''now''
      empty_store ''  '' None None True) = Inl ValueError"
    by (simp add: add_to_memory_def strip_blank)
  show ?thesis unfolding first using second blank by simp
qed

end
